theory Spec2Isabelle
  imports Main
begin

section \<open>Data model of the vault\<close>

text \<open>
  The controller \<^verbatim>\<open>src/controllers/password.controller.ts\<close> works on documents of the
  Mongoose model \<^verbatim>\<open>PasswordModel\<close>. A document is modelled as a record whose fields
  are the paths the controller reads and writes. ObjectIds are natural numbers. The
  timestamps of the schema are never read or written by the controller and are not part
  of the record.
\<close>

type_synonym oid = nat

text \<open>A JSON value, for opaque fields and for the objects a handler sends.\<close>

datatype json =
    Undefined
  | Null
  | Num int
  | Str string
  | Oid oid
  | Obj "(string \<times> json) list"

text \<open>\<^verbatim>\<open>username: { encUsername, iv }\<close> and \<^verbatim>\<open>password: { encPassword, iv }\<close>.\<close>

datatype username = Username (encUsername: string) (username_iv: string)

datatype password = Password (encPassword: string) (password_iv: string)

record doc =
  doc_id :: oid  \<comment> \<open>\<^verbatim>\<open>_id\<close>\<close>
  user :: oid
  websiteName :: string
  url :: string
  username :: username
  password :: password
  passwordStrength :: json
  websiteNameIv :: json
  urlIv :: json
  usernameIv :: json
  passwordIv :: json

text \<open>
  The collection: the documents in insertion order, and the counter the next ObjectId
  is taken from (the driver generates ObjectIds that are never repeated).
\<close>

record store =
  docs :: "doc list"
  nextId :: oid

definition wf_store :: "store \<Rightarrow> bool" where
  "wf_store s = (list_all (\<lambda>d. doc_id d < nextId s) (docs s) \<and> distinct (map doc_id (docs s)))"

definition empty_store :: store where
  "empty_store = \<lparr>docs = [], nextId = 0\<rparr>"

section \<open>Errors and responses\<close>

text \<open>
  What a handler hands to \<^verbatim>\<open>next\<close>: an \<^verbatim>\<open>ErrorHandler(message, statusCode)\<close>, or the
  CastError Mongoose throws when a value of a filter is not an ObjectId.
\<close>

datatype error = ErrorHandler string nat | CastError

fun error_message :: "error \<Rightarrow> string" where
  "error_message (ErrorHandler m c) = m"
| "error_message CastError = ''Cast to ObjectId failed''"

text \<open>
  A JavaScript number, as far as the controller meets one: NaN, the infinities, and the
  integers (of which a number holds those a double represents). The two zeros are not
  told apart: both are falsy and neither is passed on.
\<close>

datatype number = NaN | NegInfinity | Finite int | Infinity

text \<open>The pagination metadata a page comes with.\<close>

record page_info =
  currentPage :: number
  totalPages :: number
  totalCount :: number
  pageSize :: number

text \<open>
  What a handler sends with \<^verbatim>\<open>res.status(c).json(...)\<close>: the status code, the
  \<^verbatim>\<open>success\<close> flag, and the rest of the body.
\<close>

datatype response =
    Message nat bool string
  | Data nat bool "string option" doc
  | Page nat bool page_info "(string \<times> json) list list"

section \<open>Mongoose queries\<close>

text \<open>
  A value the request supplies where an ObjectId is expected: Mongoose casts it, and
  throws a CastError when it is not one.
\<close>

datatype idv = ObjectId oid | Uncastable

text \<open>A filter object is the list of its conditions; a document matches when all hold.\<close>

datatype cond =
    IdEq idv  \<comment> \<open>\<^verbatim>\<open>_id: v\<close>\<close>
  | IdIn "idv list"  \<comment> \<open>\<^verbatim>\<open>_id: { $in: vs }\<close>\<close>
  | UserEq oid  \<comment> \<open>\<^verbatim>\<open>user: u\<close>\<close>
  | WebsiteNameEq string  \<comment> \<open>\<^verbatim>\<open>websiteName: w\<close>\<close>
  | UrlEq string  \<comment> \<open>\<^verbatim>\<open>url: u\<close>\<close>

type_synonym filter = "cond list"

fun castable_cond :: "cond \<Rightarrow> bool" where
  "castable_cond (IdEq v) = (v \<noteq> Uncastable)"
| "castable_cond (IdIn vs) = (Uncastable \<notin> set vs)"
| "castable_cond c = True"

definition castable :: "filter \<Rightarrow> bool" where
  "castable f = list_all castable_cond f"

fun holds :: "cond \<Rightarrow> doc \<Rightarrow> bool" where
  "holds (IdEq v) d = (v = ObjectId (doc_id d))"
| "holds (IdIn vs) d = (ObjectId (doc_id d) \<in> set vs)"
| "holds (UserEq u) d = (user d = u)"
| "holds (WebsiteNameEq w) d = (websiteName d = w)"
| "holds (UrlEq u) d = (url d = u)"

definition matches :: "filter \<Rightarrow> doc \<Rightarrow> bool" where
  "matches f d = list_all (\<lambda>c. holds c d) f"

text \<open>\<^verbatim>\<open>Model.findOne(filter)\<close>: the first matching document, or null.\<close>

definition findOne :: "filter \<Rightarrow> store \<Rightarrow> error + doc option" where
  "findOne f s = (if castable f then Inr (find (matches f) (docs s)) else Inl CastError)"

text \<open>
  The fields \<^verbatim>\<open>Model.create\<close> is given by \<^verbatim>\<open>addPassword\<close>; the paths it does not give
  stay undefined. The new document gets a fresh \<^verbatim>\<open>_id\<close> and is appended.
\<close>

definition create :: "oid \<Rightarrow> string \<Rightarrow> string \<Rightarrow> username \<Rightarrow> password \<Rightarrow> json \<Rightarrow> store \<Rightarrow> doc \<times> store" where
  "create u w l un pw ps s =
     (let d = \<lparr>doc_id = nextId s, user = u, websiteName = w, url = l, username = un,
                password = pw, passwordStrength = ps, websiteNameIv = Undefined,
                urlIv = Undefined, usernameIv = Undefined, passwordIv = Undefined\<rparr>
      in (d, \<lparr>docs = docs s @ [d], nextId = Suc (nextId s)\<rparr>))"

text \<open>
  The body of an edit request, read as the update \<^verbatim>\<open>{ $set: updates }\<close>: for each path of
  the document, the value to set when the body has that key. Keys that are no path of
  the document are dropped by Mongoose and are not modelled.
\<close>

record updates =
  set_user :: "oid option"
  set_websiteName :: "string option"
  set_url :: "string option"
  set_username :: "username option"
  set_password :: "password option"
  set_passwordStrength :: "json option"
  set_websiteNameIv :: "json option"
  set_urlIv :: "json option"
  set_usernameIv :: "json option"
  set_passwordIv :: "json option"

definition or_else :: "'a option \<Rightarrow> 'a \<Rightarrow> 'a" where
  "or_else v old = (case v of None \<Rightarrow> old | Some x \<Rightarrow> x)"

definition apply_set :: "updates \<Rightarrow> doc \<Rightarrow> doc" where
  "apply_set u d =
     \<lparr>doc_id = doc_id d,
      user = or_else (set_user u) (user d),
      websiteName = or_else (set_websiteName u) (websiteName d),
      url = or_else (set_url u) (url d),
      username = or_else (set_username u) (username d),
      password = or_else (set_password u) (password d),
      passwordStrength = or_else (set_passwordStrength u) (passwordStrength d),
      websiteNameIv = or_else (set_websiteNameIv u) (websiteNameIv d),
      urlIv = or_else (set_urlIv u) (urlIv d),
      usernameIv = or_else (set_usernameIv u) (usernameIv d),
      passwordIv = or_else (set_passwordIv u) (passwordIv d)\<rparr>"

text \<open>The first matching document of a list replaced by its update; the update is returned.\<close>

fun update_first :: "(doc \<Rightarrow> bool) \<Rightarrow> (doc \<Rightarrow> doc) \<Rightarrow> doc list \<Rightarrow> doc option \<times> doc list" where
  "update_first p g [] = (None, [])"
| "update_first p g (d # ds) =
     (if p d then (Some (g d), g d # ds)
      else (case update_first p g ds of (r, ds') \<Rightarrow> (r, d # ds')))"

text \<open>\<^verbatim>\<open>Model.findOneAndUpdate(filter, { $set: updates }, { new: true })\<close>.\<close>

definition findOneAndUpdate :: "filter \<Rightarrow> updates \<Rightarrow> store \<Rightarrow> error + (doc option \<times> store)" where
  "findOneAndUpdate f u s =
     (if castable f
      then (case update_first (matches f) (apply_set u) (docs s) of
              (r, ds) \<Rightarrow> Inr (r, s\<lparr>docs := ds\<rparr>))
      else Inl CastError)"

text \<open>The first matching document of a list removed.\<close>

fun remove_first :: "(doc \<Rightarrow> bool) \<Rightarrow> doc list \<Rightarrow> doc list" where
  "remove_first p [] = []"
| "remove_first p (d # ds) = (if p d then ds else d # remove_first p ds)"

text \<open>\<^verbatim>\<open>Model.deleteOne(filter)\<close>: the \<^verbatim>\<open>deletedCount\<close> and the collection left.\<close>

definition deleteOne :: "filter \<Rightarrow> store \<Rightarrow> error + (nat \<times> store)" where
  "deleteOne f s =
     (if castable f
      then (let ds = remove_first (matches f) (docs s)
            in Inr (length (docs s) - length ds, s\<lparr>docs := ds\<rparr>))
      else Inl CastError)"

text \<open>\<^verbatim>\<open>Model.deleteMany(filter)\<close>: every matching document removed.\<close>

definition deleteMany :: "filter \<Rightarrow> store \<Rightarrow> error + (nat \<times> store)" where
  "deleteMany f s =
     (if castable f
      then Inr (length (filter (matches f) (docs s)),
                s\<lparr>docs := filter (\<lambda>d. \<not> matches f d) (docs s)\<rparr>)
      else Inl CastError)"

section \<open>Reading the query parameters\<close>

text \<open>
  A query parameter is a JavaScript string: a sequence of UTF-16 code units, each an
  integer from 0 to 65535. \<open>js\<close> is the string of an ASCII text.
\<close>

type_synonym code_unit = int

type_synonym jsstring = "code_unit list"

definition js :: "string \<Rightarrow> jsstring" where
  "js s = map of_char s"

text \<open>
  The white space \<^verbatim>\<open>parseInt\<close> skips: the ECMAScript WhiteSpace and LineTerminator code
  points, which are tab, line feed, vertical tab, form feed, carriage return, space,
  no-break space, the Unicode space separators U+1680, U+2000 to U+200A, U+202F, U+205F
  and U+3000, the line and paragraph separators U+2028 and U+2029, and U+FEFF.
\<close>

definition is_space :: "code_unit \<Rightarrow> bool" where
  "is_space c =
     (c \<in> set [0x09, 0x0A, 0x0B, 0x0C, 0x0D, 0x20, 0xA0, 0x1680, 0x2028, 0x2029, 0x202F,
                0x205F, 0x3000, 0xFEFF]
      \<or> (0x2000 \<le> c \<and> c \<le> 0x200A))"

text \<open>The value of a code unit as a digit of radix \<open>r\<close>: \<^verbatim>\<open>0-9\<close>, \<^verbatim>\<open>a-z\<close>, \<^verbatim>\<open>A-Z\<close>.\<close>

definition digit_val :: "int \<Rightarrow> code_unit \<Rightarrow> int option" where
  "digit_val r n =
     (let v = (if 48 \<le> n \<and> n \<le> 57 then Some (n - 48)
               else if 97 \<le> n \<and> n \<le> 122 then Some (n - 87)
               else if 65 \<le> n \<and> n \<le> 90 then Some (n - 55)
               else None)
      in case v of None \<Rightarrow> None | Some d \<Rightarrow> if d < r then Some d else None)"

fun digits_prefix :: "int \<Rightarrow> jsstring \<Rightarrow> int list" where
  "digits_prefix r [] = []"
| "digits_prefix r (c # cs) =
     (case digit_val r c of None \<Rightarrow> [] | Some d \<Rightarrow> d # digits_prefix r cs)"

text \<open>A leading \<^verbatim>\<open>-\<close> (0x2D) or \<^verbatim>\<open>+\<close> (0x2B) is taken off; \<open>True\<close> is the sign \<open>-1\<close>.\<close>

definition strip_sign :: "jsstring \<Rightarrow> bool \<times> jsstring" where
  "strip_sign s =
     (case s of
        [] \<Rightarrow> (False, [])
      | c # cs \<Rightarrow> if c = 0x2D then (True, cs)
                  else if c = 0x2B then (False, cs)
                  else (False, s))"

text \<open>A leading \<^verbatim>\<open>0x\<close> or \<^verbatim>\<open>0X\<close> is taken off and makes the radix 16; else it is 10.\<close>

definition strip_prefix :: "jsstring \<Rightarrow> int \<times> jsstring" where
  "strip_prefix s =
     (case s of
        c # x # cs \<Rightarrow> if c = 0x30 \<and> (x = 0x78 \<or> x = 0x58) then (16, cs)
                      else (10, s)
      | _ \<Rightarrow> (10, s))"

text \<open>The number of binary digits of a positive integer.\<close>

function bitlen :: "int \<Rightarrow> nat" where
  "bitlen n = (if n \<le> 0 then 0 else Suc (bitlen (n div 2)))"
  by pat_completeness auto
termination
  by (relation "measure nat") auto

declare bitlen.simps [simp del]

text \<open>
  The double nearest to an integer that is not negative, ties to the even significand
  of 53 bits; \<open>None\<close> when it is beyond the largest double, which gives an infinity.
\<close>

definition round_double :: "int \<Rightarrow> int option" where
  "round_double a =
     (if a < 2 ^ 53 then Some a
      else (let e = bitlen a - 53;
                q = a div 2 ^ e;
                r = a mod 2 ^ e;
                h = 2 ^ (e - 1);
                q' = (if h < r \<or> (r = h \<and> odd q) then q + 1 else q);
                v = q' * 2 ^ e
            in if 2 ^ 1024 \<le> v then None else Some v))"

text \<open>
  \<^verbatim>\<open>parseInt(string)\<close> with no radix, as ECMAScript defines it: leading white space is
  skipped, then an optional sign, then an optional \<^verbatim>\<open>0x\<close> or \<^verbatim>\<open>0X\<close>, then the longest
  run of digits of the radix. No digit gives NaN; else the result is the number for
  the signed value of the digits, rounded to a double. (ECMAScript lets an engine
  replace the digits after the 20th significant one by zeros before rounding; the
  engine of Node does not, and neither does this definition.)
\<close>

definition parseInt :: "jsstring \<Rightarrow> number" where
  "parseInt s =
     (case strip_sign (dropWhile is_space s) of
        (neg, s2) \<Rightarrow>
          (case strip_prefix s2 of
             (r, s3) \<Rightarrow>
               (let ds = digits_prefix r s3
                in if ds = [] then NaN
                   else (case round_double (foldl (\<lambda>a d. a * r + d) 0 ds) of
                           None \<Rightarrow> if neg then NegInfinity else Infinity
                         | Some v \<Rightarrow> Finite (if neg then - v else v)))))"

text \<open>A query parameter that is not set is \<^verbatim>\<open>undefined\<close>, which parseInt reads as the
  string \<^verbatim>\<open>undefined\<close>.\<close>

definition parseInt_param :: "jsstring option \<Rightarrow> number" where
  "parseInt_param p = parseInt (case p of None \<Rightarrow> js ''undefined'' | Some s \<Rightarrow> s)"

text \<open>\<^verbatim>\<open>n || d\<close> on a number: NaN and zero are falsy.\<close>

definition or_default :: "number \<Rightarrow> int \<Rightarrow> number" where
  "or_default v d =
     (case v of
        NaN \<Rightarrow> Finite d
      | Finite n \<Rightarrow> if n = 0 then Finite d else Finite n
      | NegInfinity \<Rightarrow> NegInfinity
      | Infinity \<Rightarrow> Infinity)"

text \<open>\<^verbatim>\<open>n < 1\<close> and \<^verbatim>\<open>n < 0\<close> on a number.\<close>

fun below_one :: "number \<Rightarrow> bool" where
  "below_one NegInfinity = True"
| "below_one (Finite n) = (n < 1)"
| "below_one NaN = False"
| "below_one Infinity = False"

fun negative :: "number \<Rightarrow> bool" where
  "negative NegInfinity = True"
| "negative (Finite n) = (n < 0)"
| "negative NaN = False"
| "negative Infinity = False"

section \<open>The pagination helper\<close>

record paginated =
  results :: "doc list"
  pageInfo :: page_info

definition lower :: "char \<Rightarrow> char" where
  "lower c = (let n = (of_char c :: nat) in if 65 \<le> n \<and> n \<le> 90 then char_of (n + 32) else c)"

fun starts_with :: "string \<Rightarrow> string \<Rightarrow> bool" where
  "starts_with [] ys = True"
| "starts_with (x # xs) [] = False"
| "starts_with (x # xs) (y # ys) = (x = y \<and> starts_with xs ys)"

fun contains :: "string \<Rightarrow> string \<Rightarrow> bool" where
  "contains t [] = (t = [])"
| "contains t (y # ys) = (starts_with t (y # ys) \<or> contains t ys)"

definition field_text :: "string \<Rightarrow> doc \<Rightarrow> string option" where
  "field_text f d =
     (if f = ''websiteName'' then Some (websiteName d)
      else if f = ''url'' then Some (url d)
      else None)"

definition search_hit :: "string \<Rightarrow> string list \<Rightarrow> doc \<Rightarrow> bool" where
  "search_hit t fs d =
     list_ex (\<lambda>f. case field_text f d of
                     None \<Rightarrow> False
                   | Some v \<Rightarrow> contains (map lower t) (map lower v)) fs"

text \<open>
  The page and the limit of the helper are numbers. One that is NaN becomes the default,
  one below 1 becomes 1. An infinite limit takes every document, an infinite page is
  past every document.
\<close>

fun at_least_one :: "number \<Rightarrow> int \<Rightarrow> number" where
  "at_least_one NaN d = Finite d"
| "at_least_one NegInfinity d = Finite 1"
| "at_least_one (Finite n) d = Finite (max 1 n)"
| "at_least_one Infinity d = Infinity"

fun take_number :: "number \<Rightarrow> 'a list \<Rightarrow> 'a list" where
  "take_number (Finite n) xs = take (nat n) xs"
| "take_number Infinity xs = xs"
| "take_number NaN xs = []"
| "take_number NegInfinity xs = []"

fun drop_number :: "number \<Rightarrow> 'a list \<Rightarrow> 'a list" where
  "drop_number (Finite n) xs = drop (nat n) xs"
| "drop_number Infinity xs = []"
| "drop_number NaN xs = xs"
| "drop_number NegInfinity xs = xs"

text \<open>The documents before the page, \<open>(p - 1) * l\<close>, and the pages, \<open>n / l\<close> rounded up.\<close>

fun skipped :: "number \<Rightarrow> number \<Rightarrow> number" where
  "skipped (Finite p) (Finite l) = Finite ((p - 1) * l)"
| "skipped (Finite p) l = (if p = 1 then Finite 0 else Infinity)"
| "skipped p l = Infinity"

fun pages_of :: "int \<Rightarrow> number \<Rightarrow> number" where
  "pages_of n (Finite l) = Finite ((n + l - 1) div l)"
| "pages_of n l = Finite (if n = 0 then 0 else 1)"

text \<open>
  Modelled from the spec: \<^verbatim>\<open>paginate\<close> of \<^verbatim>\<open>src/utils/pagination\<close>, which the controller
  imports and whose source is missing. The spec's \<^verbatim>\<open>findManyOwned\<close>: the documents that
  match the base filter and, when a search term is present, contain it as a
  case-insensitive substring in one of the search fields, in insertion order; page and
  limit are clamped to at least 1; the page is returned with the total count, the
  total pages, the current page and the page size.
\<close>

definition paginate ::
  "store \<Rightarrow> filter \<Rightarrow> string option \<Rightarrow> string list \<Rightarrow> number \<Rightarrow> number \<Rightarrow> paginated" where
  "paginate s baseFilter searchTerm searchFields pg lim =
     (let p = at_least_one pg 1;
          l = at_least_one lim 10;
          hits = filter (\<lambda>d. matches baseFilter d \<and>
                    (case searchTerm of None \<Rightarrow> True
                     | Some t \<Rightarrow> search_hit t searchFields d)) (docs s);
          n = int (length hits)
      in \<lparr>results = take_number l (drop_number (skipped p l) hits),
          pageInfo = \<lparr>currentPage = p, totalPages = pages_of n l, totalCount = Finite n,
                      pageSize = l\<rparr>\<rparr>)"

section \<open>The handlers of the controller\<close>

text \<open>The body fields \<^verbatim>\<open>addPassword\<close> reads.\<close>

record add_body =
  req_websiteName :: string
  req_websiteUrl :: string
  req_username :: string
  req_password :: string
  req_usernameIv :: string
  req_passwordIv :: string
  req_passwordStrength :: json

text \<open>
  \<^verbatim>\<open>addPassword\<close>: the existence check, then the insertion. An exception of the store is
  caught and handed on with status 500.
\<close>

definition addPassword :: "store \<Rightarrow> oid \<Rightarrow> add_body \<Rightarrow> (error + response) \<times> store" where
  "addPassword s userId b =
     (case findOne [UserEq userId, WebsiteNameEq (req_websiteName b), UrlEq (req_websiteUrl b)] s of
        Inl e \<Rightarrow> (Inl (ErrorHandler (error_message e) 500), s)
      | Inr (Some existingPassword) \<Rightarrow>
          (Inr (Message 400 False ''Password already exists in the vault.''), s)
      | Inr None \<Rightarrow>
          (case create userId (req_websiteName b) (req_websiteUrl b)
                  (Username (req_username b) (req_usernameIv b))
                  (Password (req_password b) (req_passwordIv b))
                  (req_passwordStrength b) s of
             (details, s') \<Rightarrow>
               (Inr (Message 201 True ''Password information added successfully.''), s')))"

text \<open>The query parameters \<^verbatim>\<open>getPassword\<close> reads; \<open>None\<close> is a parameter that is not set.\<close>

record list_query =
  page :: "jsstring option"
  limit :: "jsstring option"
  search :: "string option"

definition parsed_page :: "list_query \<Rightarrow> number" where
  "parsed_page q = or_default (parseInt_param (page q)) 1"

definition parsed_limit :: "list_query \<Rightarrow> number" where
  "parsed_limit q = or_default (parseInt_param (limit q)) 10"

text \<open>The object each entry of a page is mapped to.\<close>

definition passwordForClient :: "doc \<Rightarrow> (string \<times> json) list" where
  "passwordForClient passwordEntry =
     [(''id'', Oid (doc_id passwordEntry)),
      (''websiteName'', Str (websiteName passwordEntry)),
      (''url'', Str (url passwordEntry)),
      (''username'', Obj [(''encUsername'', Str (encUsername (username passwordEntry))),
                          (''iv'', Str (username_iv (username passwordEntry)))]),
      (''password'', Obj [(''encPassword'', Str (encPassword (password passwordEntry))),
                          (''iv'', Str (password_iv (password passwordEntry)))]),
      (''passwordStrength'', passwordStrength passwordEntry),
      (''websiteNameIv'', websiteNameIv passwordEntry),
      (''urlIv'', urlIv passwordEntry),
      (''usernameIv'', usernameIv passwordEntry),
      (''passwordIv'', passwordIv passwordEntry)]"

text \<open>
  \<^verbatim>\<open>getPassword\<close>, with the pagination helper as the parameter \<open>pg\<close>: it is called with
  the base filter \<^verbatim>\<open>{ user: userId }\<close>, the search term, the search field
  \<^verbatim>\<open>websiteName\<close> and the parsed page and limit.
\<close>

definition getPassword ::
  "(store \<Rightarrow> filter \<Rightarrow> string option \<Rightarrow> string list \<Rightarrow> number \<Rightarrow> number \<Rightarrow> paginated)
     \<Rightarrow> store \<Rightarrow> oid \<Rightarrow> list_query \<Rightarrow> error + response" where
  "getPassword pg s userId q =
     (let r = pg s [UserEq userId] (search q) [''websiteName''] (parsed_page q) (parsed_limit q);
          passwords = results r
      in if passwords = [] then Inl (ErrorHandler ''No passwords found'' 404)
         else Inr (Page 201 True (pageInfo r) (map passwordForClient passwords)))"

definition getSinglePassword :: "store \<Rightarrow> oid \<Rightarrow> idv \<Rightarrow> error + response" where
  "getSinglePassword s userId ident =
     (case findOne [IdEq ident, UserEq userId] s of
        Inl e \<Rightarrow> Inl e
      | Inr None \<Rightarrow> Inl (ErrorHandler ''Password not found or access denied.'' 404)
      | Inr (Some p) \<Rightarrow> Inr (Data 200 True None p))"

definition editPassword :: "store \<Rightarrow> oid \<Rightarrow> idv \<Rightarrow> updates \<Rightarrow> (error + response) \<times> store" where
  "editPassword s userId passwordId u =
     (case findOneAndUpdate [IdEq passwordId, UserEq userId] u s of
        Inl e \<Rightarrow> (Inl e, s)
      | Inr (None, s') \<Rightarrow>
          (Inl (ErrorHandler ''Password not found or not owned by the user'' 404), s')
      | Inr (Some updatedPassword, s') \<Rightarrow>
          (Inr (Data 200 True (Some ''Password updated successfully'') updatedPassword), s'))"

text \<open>\<open>None\<close> is a \<^verbatim>\<open>passwordId\<close> that is missing or empty.\<close>

definition deleteSinglePassword :: "store \<Rightarrow> oid \<Rightarrow> idv option \<Rightarrow> (error + response) \<times> store" where
  "deleteSinglePassword s userId passwordId =
     (case passwordId of
        None \<Rightarrow> (Inl (ErrorHandler ''Password ID is required.'' 400), s)
      | Some pid \<Rightarrow>
          (case deleteOne [IdEq pid, UserEq userId] s of
             Inl e \<Rightarrow> (Inl e, s)
           | Inr (deletedCount, s') \<Rightarrow>
               if deletedCount = 0
               then (Inl (ErrorHandler ''Password not found or not owned by the user.'' 404), s')
               else (Inr (Message 200 True ''Password has been successfully deleted.''), s')))"

text \<open>The decimal digits of a number, as a template string prints it.\<close>

fun show_nat :: "nat \<Rightarrow> string" where
  "show_nat n =
     (if n < 10 then [''0123456789'' ! n]
      else show_nat (n div 10) @ [''0123456789'' ! (n mod 10)])"

declare show_nat.simps [simp del]

text \<open>\<open>None\<close> is a \<^verbatim>\<open>passwordIds\<close> that is not an array.\<close>

definition deleteMultiplePasswords ::
  "store \<Rightarrow> oid \<Rightarrow> idv list option \<Rightarrow> (error + response) \<times> store" where
  "deleteMultiplePasswords s userId passwordIds =
     (case passwordIds of
        None \<Rightarrow> (Inl (ErrorHandler ''An array of password IDs is required.'' 400), s)
      | Some ids \<Rightarrow>
          if ids = [] then (Inl (ErrorHandler ''An array of password IDs is required.'' 400), s)
          else
            (case deleteMany [IdIn ids, UserEq userId] s of
               Inl e \<Rightarrow> (Inl e, s)
             | Inr (deletedCount, s') \<Rightarrow>
                 if deletedCount = 0
                 then (Inl (ErrorHandler
                   ''No passwords were deleted. They may not exist or not be owned by the user.''
                   404), s')
                 else (Inr (Message 200 True
                   (show_nat deletedCount @ '' passwords have been successfully deleted.'')), s')))"

section \<open>What \<^verbatim>\<open>res.json\<close> writes\<close>

text \<open>
  \<^verbatim>\<open>res.json\<close> writes its argument with \<^verbatim>\<open>JSON.stringify\<close>, which leaves out of an object
  every key whose value is \<^verbatim>\<open>undefined\<close>, at every depth.
\<close>

primrec stringify :: "json \<Rightarrow> json" where
  "stringify Undefined = Undefined"
| "stringify Null = Null"
| "stringify (Num n) = Num n"
| "stringify (Str t) = Str t"
| "stringify (Oid i) = Oid i"
| "stringify (Obj kvs) =
     Obj (filter (\<lambda>kv. snd kv \<noteq> Undefined) (map (map_prod id stringify) kvs))"

definition stringify_object :: "(string \<times> json) list \<Rightarrow> (string \<times> json) list" where
  "stringify_object kvs = filter (\<lambda>kv. snd kv \<noteq> Undefined) (map (map_prod id stringify) kvs)"

text \<open>The entries of \<^verbatim>\<open>data\<close> in the body that is written for a page.\<close>

definition res_json_entries :: "response \<Rightarrow> (string \<times> json) list list" where
  "res_json_entries r =
     (case r of Page c ok info entries \<Rightarrow> map stringify_object entries | _ \<Rightarrow> [])"

section \<open>The two waits of \<^verbatim>\<open>addPassword\<close>\<close>

text \<open>
  \<open>addPassword\<close> awaits the store twice: \<^verbatim>\<open>findOne\<close>, and then \<^verbatim>\<open>create\<close> (with the
  \<^verbatim>\<open>save\<close> that follows, which writes nothing new). While it waits, another request
  can run on the store. Its first part is the existence check.
\<close>

definition addPassword_check :: "store \<Rightarrow> oid \<Rightarrow> add_body \<Rightarrow> error + doc option" where
  "addPassword_check s userId b =
     findOne [UserEq userId, WebsiteNameEq (req_websiteName b), UrlEq (req_websiteUrl b)] s"

text \<open>
  An insertion into the store: it returns the new document and the store with it, or
  throws an error with a message (\<open>Inl\<close>) and leaves the store as it is.
\<close>

type_synonym creator =
  "oid \<Rightarrow> string \<Rightarrow> string \<Rightarrow> username \<Rightarrow> password \<Rightarrow> json \<Rightarrow> store \<Rightarrow> string + doc \<times> store"

text \<open>
  The second part: what \<open>addPassword\<close> does with the result of its check, on the
  store as it is by then, for an insertion \<open>ins\<close>.
\<close>

definition addPassword_after_check ::
  "creator \<Rightarrow> error + doc option \<Rightarrow> store \<Rightarrow> oid \<Rightarrow> add_body \<Rightarrow> (error + response) \<times> store" where
  "addPassword_after_check ins existing s userId b =
     (case existing of
        Inl e \<Rightarrow> (Inl (ErrorHandler (error_message e) 500), s)
      | Inr (Some existingPassword) \<Rightarrow>
          (Inr (Message 400 False ''Password already exists in the vault.''), s)
      | Inr None \<Rightarrow>
          (case ins userId (req_websiteName b) (req_websiteUrl b)
                  (Username (req_username b) (req_usernameIv b))
                  (Password (req_password b) (req_passwordIv b))
                  (req_passwordStrength b) s of
             Inl m \<Rightarrow> (Inl (ErrorHandler m 500), s)
           | Inr (details, s') \<Rightarrow>
               (Inr (Message 201 True ''Password information added successfully.''), s')))"

text \<open>\<open>create\<close> as an insertion: it takes every document.\<close>

definition create_accepts :: creator where
  "create_accepts u w l un pw ps s = Inr (create u w l un pw ps s)"

text \<open>
  Two requests on one store. Each is before its check, between its check and its
  insertion (holding the result of the check), or answered. A schedule says whose
  turn it is, step by step.
\<close>

datatype progress =
    NotStarted
  | Checked "error + doc option"
  | Answered "error + response"

datatype caller = First | Second

definition advance :: "creator \<Rightarrow> oid \<Rightarrow> add_body \<Rightarrow> progress \<Rightarrow> store \<Rightarrow> progress \<times> store" where
  "advance ins userId b p s =
     (case p of
        NotStarted \<Rightarrow> (Checked (addPassword_check s userId b), s)
      | Checked existing \<Rightarrow>
          (case addPassword_after_check ins existing s userId b of
             (answer, s') \<Rightarrow> (Answered answer, s'))
      | Answered answer \<Rightarrow> (Answered answer, s))"

fun run ::
  "creator \<Rightarrow> oid \<Rightarrow> add_body \<Rightarrow> add_body \<Rightarrow> caller list \<Rightarrow> progress \<times> progress \<times> store
     \<Rightarrow> progress \<times> progress \<times> store" where
  "run ins userId b1 b2 [] st = st"
| "run ins userId b1 b2 (First # cs) (p1, p2, s) =
     (case advance ins userId b1 p1 s of (p1', s') \<Rightarrow> run ins userId b1 b2 cs (p1', p2, s'))"
| "run ins userId b1 b2 (Second # cs) (p1, p2, s) =
     (case advance ins userId b2 p2 s of (p2', s') \<Rightarrow> run ins userId b1 b2 cs (p1, p2', s'))"

text \<open>
  The schedules in which each request takes its two steps: one request after the
  other, or both checks before both insertions.
\<close>

definition one_after_the_other :: "caller list list" where
  "one_after_the_other = [[First, First, Second, Second], [Second, Second, First, First]]"

definition both_checks_first :: "caller list list" where
  "both_checks_first =
     [[First, Second, First, Second], [First, Second, Second, First],
      [Second, First, First, Second], [Second, First, Second, First]]"

section \<open>Example data\<close>

definition example_body :: add_body where
  "example_body = \<lparr>req_websiteName = ''GitHub'', req_websiteUrl = ''https://github.com'',
     req_username = ''c1'', req_password = ''c2'', req_usernameIv = ''iv1'',
     req_passwordIv = ''iv2'', req_passwordStrength = Str ''Strong''\<rparr>"

definition example_doc :: doc where
  "example_doc = \<lparr>doc_id = 0, user = 1, websiteName = ''GitHub'', url = ''https://github.com'',
     username = Username ''a'' ''b'', password = Password ''c'' ''d'',
     passwordStrength = Num 3, websiteNameIv = Undefined, urlIv = Undefined,
     usernameIv = Undefined, passwordIv = Undefined\<rparr>"

definition example_body_lower :: add_body where
  "example_body_lower = example_body\<lparr>req_websiteName := ''github''\<rparr>"

definition example_doc_other :: doc where
  "example_doc_other = example_doc\<lparr>doc_id := 1, user := 2\<rparr>"

definition example_doc_second :: doc where
  "example_doc_second = example_doc\<lparr>doc_id := 2, websiteName := ''GitLab''\<rparr>"

definition example_store :: store where
  "example_store = \<lparr>docs = [example_doc, example_doc_other, example_doc_second], nextId = 3\<rparr>"

definition client_fields :: "string list" where
  "client_fields = [''id'', ''websiteName'', ''url'', ''username'', ''password'',
     ''passwordStrength'', ''websiteNameIv'', ''urlIv'', ''usernameIv'', ''passwordIv'']"

text \<open>
  A pagination helper that reports the page and the limit it is called with, to read
  off what \<open>getPassword\<close> passes on.
\<close>

definition echo_paginate ::
  "store \<Rightarrow> filter \<Rightarrow> string option \<Rightarrow> string list \<Rightarrow> number \<Rightarrow> number \<Rightarrow> paginated" where
  "echo_paginate s baseFilter searchTerm searchFields pg lim =
     \<lparr>results = filter (matches baseFilter) (docs s),
      pageInfo = \<lparr>currentPage = pg, totalPages = Finite 0, totalCount = Finite 0,
                  pageSize = lim\<rparr>\<rparr>"

definition example_query_negative :: list_query where
  "example_query_negative = \<lparr>page = Some (js ''-3''), limit = Some (js ''-7''), search = None\<rparr>"

definition no_updates :: updates where
  "no_updates = \<lparr>set_user = None, set_websiteName = None, set_url = None,
     set_username = None, set_password = None, set_passwordStrength = None,
     set_websiteNameIv = None, set_urlIv = None, set_usernameIv = None,
     set_passwordIv = None\<rparr>"

section \<open>Filters\<close>

lemma matches_add_filter:
  "matches [UserEq u, WebsiteNameEq w, UrlEq l] d \<longleftrightarrow> user d = u \<and> websiteName d = w \<and> url d = l"
  by (simp add: matches_def)

lemma matches_id_user:
  "matches [IdEq v, UserEq u] d \<longleftrightarrow> v = ObjectId (doc_id d) \<and> user d = u"
  by (simp add: matches_def)

lemma matches_in_user:
  "matches [IdIn vs, UserEq u] d \<longleftrightarrow> ObjectId (doc_id d) \<in> set vs \<and> user d = u"
  by (simp add: matches_def)

lemma castable_add_filter: "castable [UserEq u, WebsiteNameEq w, UrlEq l]"
  by (simp add: castable_def)

lemma castable_id_user: "castable [IdEq v, UserEq u] \<longleftrightarrow> v \<noteq> Uncastable"
  by (simp add: castable_def)

lemma castable_in_user: "castable [IdIn vs, UserEq u] \<longleftrightarrow> Uncastable \<notin> set vs"
  by (simp add: castable_def)

section \<open>Adding an entry that exists\<close>

text \<open>
  C2. When the collection holds a document of the owner with the website name and the
  url of the request, \<open>addPassword\<close> answers with the response of status 400 and
  \<^verbatim>\<open>success: false\<close> (a response, nothing is handed to \<^verbatim>\<open>next\<close>), and the collection is
  the one it was: no document is inserted and none is changed.
\<close>

theorem addPassword_duplicate_conflict:
  assumes "d \<in> set (docs s)" and "user d = userId"
    and "websiteName d = req_websiteName b" and "url d = req_websiteUrl b"
  shows "addPassword s userId b =
           (Inr (Message 400 False ''Password already exists in the vault.''), s)"
proof -
  let ?f = "[UserEq userId, WebsiteNameEq (req_websiteName b), UrlEq (req_websiteUrl b)]"
  have "matches ?f d" using assms by (simp add: matches_add_filter)
  with assms(1) have "find (matches ?f) (docs s) \<noteq> None"
    by (auto simp: find_None_iff)
  then obtain e where "find (matches ?f) (docs s) = Some e" by blast
  then have "findOne ?f s = Inr (Some e)"
    by (simp add: findOne_def castable_add_filter)
  then show ?thesis by (simp add: addPassword_def)
qed

theorem addPassword_duplicate_conflict_witness:
  "addPassword \<lparr>docs = [example_doc], nextId = 1\<rparr> 1 example_body =
     (Inr (Message 400 False ''Password already exists in the vault.''),
      \<lparr>docs = [example_doc], nextId = 1\<rparr>)"
  using addPassword_duplicate_conflict
    [of example_doc "\<lparr>docs = [example_doc], nextId = 1\<rparr>" 1 example_body]
  by (simp add: example_doc_def example_body_def)

section \<open>The collection under the queries\<close>

lemma update_first_split:
  "update_first p g ds = (None, ds) \<and> (\<forall>d\<in>set ds. \<not> p d) \<or>
   (\<exists>xs d ys. ds = xs @ d # ys \<and> (\<forall>x\<in>set xs. \<not> p x) \<and> p d \<and>
      update_first p g ds = (Some (g d), xs @ g d # ys))"
proof (induction ds)
  case Nil
  show ?case by simp
next
  case (Cons a ds)
  show ?case
  proof (cases "p a")
    case True
    then have "a # ds = [] @ a # ds \<and> (\<forall>x\<in>set []. \<not> p x) \<and> p a \<and>
        update_first p g (a # ds) = (Some (g a), [] @ g a # ds)"
      by simp
    then show ?thesis by blast
  next
    case False
    from Cons.IH show ?thesis
    proof
      assume "update_first p g ds = (None, ds) \<and> (\<forall>d\<in>set ds. \<not> p d)"
      with False show ?thesis by simp
    next
      assume "\<exists>xs d ys. ds = xs @ d # ys \<and> (\<forall>x\<in>set xs. \<not> p x) \<and> p d \<and>
        update_first p g ds = (Some (g d), xs @ g d # ys)"
      then obtain xs d ys where h: "ds = xs @ d # ys" "\<forall>x\<in>set xs. \<not> p x" "p d"
        "update_first p g ds = (Some (g d), xs @ g d # ys)"
        by blast
      with False have "a # ds = (a # xs) @ d # ys \<and> (\<forall>x\<in>set (a # xs). \<not> p x) \<and> p d \<and>
        update_first p g (a # ds) = (Some (g d), (a # xs) @ g d # ys)"
        by simp
      then show ?thesis by blast
    qed
  qed
qed

lemma remove_first_split:
  "remove_first p ds = ds \<and> (\<forall>d\<in>set ds. \<not> p d) \<or>
   (\<exists>xs d ys. ds = xs @ d # ys \<and> (\<forall>x\<in>set xs. \<not> p x) \<and> p d \<and>
      remove_first p ds = xs @ ys)"
proof (induction ds)
  case Nil
  show ?case by simp
next
  case (Cons a ds)
  show ?case
  proof (cases "p a")
    case True
    then have "a # ds = [] @ a # ds \<and> (\<forall>x\<in>set []. \<not> p x) \<and> p a \<and>
        remove_first p (a # ds) = [] @ ds"
      by simp
    then show ?thesis by blast
  next
    case False
    from Cons.IH show ?thesis
    proof
      assume "remove_first p ds = ds \<and> (\<forall>d\<in>set ds. \<not> p d)"
      with False show ?thesis by simp
    next
      assume "\<exists>xs d ys. ds = xs @ d # ys \<and> (\<forall>x\<in>set xs. \<not> p x) \<and> p d \<and>
        remove_first p ds = xs @ ys"
      then obtain xs d ys where h: "ds = xs @ d # ys" "\<forall>x\<in>set xs. \<not> p x" "p d"
        "remove_first p ds = xs @ ys"
        by blast
      with False have "a # ds = (a # xs) @ d # ys \<and> (\<forall>x\<in>set (a # xs). \<not> p x) \<and> p d \<and>
        remove_first p (a # ds) = (a # xs) @ ys"
        by simp
      then show ?thesis by blast
    qed
  qed
qed

lemma remove_first_keeps: "\<not> p d \<Longrightarrow> d \<in> set ds \<Longrightarrow> d \<in> set (remove_first p ds)"
  by (induction ds) auto

lemma remove_first_subset: "set (remove_first p ds) \<subseteq> set ds"
  by (induction ds) auto

lemma remove_first_filter:
  "(\<And>d. p d \<Longrightarrow> \<not> q d) \<Longrightarrow> filter q (remove_first p ds) = filter q ds"
  by (induction ds) auto

lemma remove_first_length:
  "length ds - length (remove_first p ds) = (if \<exists>d\<in>set ds. p d then 1 else 0)"
  by (induction ds) (auto simp: Suc_diff_le)

lemma addPassword_absent:
  assumes "\<forall>d\<in>set (docs s). \<not> (user d = userId \<and> websiteName d = req_websiteName b
             \<and> url d = req_websiteUrl b)"
  shows "addPassword s userId b =
     (Inr (Message 201 True ''Password information added successfully.''),
      snd (create userId (req_websiteName b) (req_websiteUrl b)
             (Username (req_username b) (req_usernameIv b))
             (Password (req_password b) (req_passwordIv b)) (req_passwordStrength b) s))"
proof -
  let ?f = "[UserEq userId, WebsiteNameEq (req_websiteName b), UrlEq (req_websiteUrl b)]"
  have "find (matches ?f) (docs s) = None"
    using assms by (simp add: find_None_iff matches_add_filter)
  then have "findOne ?f s = Inr None"
    by (simp add: findOne_def castable_add_filter)
  then show ?thesis by (simp add: addPassword_def split: prod.split)
qed

lemma addPassword_conflict_iff:
  "fst (addPassword s userId b) = Inr (Message 400 False ''Password already exists in the vault.'')
   \<longleftrightarrow> (\<exists>d\<in>set (docs s). user d = userId \<and> websiteName d = req_websiteName b
           \<and> url d = req_websiteUrl b)"
proof (cases "\<exists>d\<in>set (docs s). user d = userId \<and> websiteName d = req_websiteName b
           \<and> url d = req_websiteUrl b")
  case True
  then obtain d where "d \<in> set (docs s)" "user d = userId" "websiteName d = req_websiteName b"
    "url d = req_websiteUrl b" by blast
  then have "matches [UserEq userId, WebsiteNameEq (req_websiteName b), UrlEq (req_websiteUrl b)] d"
    by (simp add: matches_add_filter)
  with \<open>d \<in> set (docs s)\<close>
  have "find (matches [UserEq userId, WebsiteNameEq (req_websiteName b), UrlEq (req_websiteUrl b)])
          (docs s) \<noteq> None"
    by (auto simp: find_None_iff)
  then have "fst (addPassword s userId b) =
      Inr (Message 400 False ''Password already exists in the vault.'')"
    by (auto simp: addPassword_def findOne_def castable_add_filter)
  with True show ?thesis by simp
next
  case False
  then have "\<forall>d\<in>set (docs s). \<not> (user d = userId \<and> websiteName d = req_websiteName b
             \<and> url d = req_websiteUrl b)" by blast
  from addPassword_absent [OF this] False show ?thesis by simp
qed

section \<open>The invariant of the collection\<close>

lemma wf_store_empty: "wf_store empty_store"
  by (simp add: wf_store_def empty_store_def)

lemma addPassword_present:
  assumes "\<exists>d\<in>set (docs s). user d = userId \<and> websiteName d = req_websiteName b
             \<and> url d = req_websiteUrl b"
  shows "addPassword s userId b =
           (Inr (Message 400 False ''Password already exists in the vault.''), s)"
proof -
  let ?f = "[UserEq userId, WebsiteNameEq (req_websiteName b), UrlEq (req_websiteUrl b)]"
  from assms obtain d where "d \<in> set (docs s)" "matches ?f d"
    by (auto simp: matches_add_filter)
  then have "find (matches ?f) (docs s) \<noteq> None"
    by (auto simp: find_None_iff)
  then obtain e where "find (matches ?f) (docs s) = Some e" by blast
  then have "findOne ?f s = Inr (Some e)"
    by (simp add: findOne_def castable_add_filter)
  then show ?thesis by (simp add: addPassword_def)
qed

lemma wf_store_create: "wf_store s \<Longrightarrow> wf_store (snd (create u w l un pw ps s))"
  by (auto simp: wf_store_def create_def Let_def list_all_iff less_Suc_eq)

lemma wf_store_addPassword: "wf_store s \<Longrightarrow> wf_store (snd (addPassword s userId b))"
proof (cases "\<exists>d\<in>set (docs s). user d = userId \<and> websiteName d = req_websiteName b
             \<and> url d = req_websiteUrl b")
  case True
  assume "wf_store s"
  with addPassword_present [OF True] show ?thesis by simp
next
  case False
  assume wf: "wf_store s"
  from False have "\<forall>d\<in>set (docs s). \<not> (user d = userId \<and> websiteName d = req_websiteName b
             \<and> url d = req_websiteUrl b)" by blast
  from addPassword_absent [OF this] wf show ?thesis by (simp add: wf_store_create)
qed

lemma wf_store_same_ids:
  "map doc_id (docs s') = map doc_id (docs s) \<Longrightarrow> nextId s' = nextId s \<Longrightarrow>
   wf_store s' = wf_store s"
proof -
  assume ids: "map doc_id (docs s') = map doc_id (docs s)" and nxt: "nextId s' = nextId s"
  have a: "list_all (\<lambda>d. doc_id d < n) ds = list_all (\<lambda>i. i < n) (map doc_id ds)" for ds n
    by (induction ds) simp_all
  show ?thesis unfolding wf_store_def a ids nxt by (rule refl)
qed

lemma doc_id_apply_set: "doc_id (apply_set u d) = doc_id d"
  by (simp add: apply_set_def)

lemma update_first_ids:
  "(\<And>d. doc_id (g d) = doc_id d) \<Longrightarrow> map doc_id (snd (update_first p g ds)) = map doc_id ds"
  by (induction ds) (auto split: prod.split)

lemma editPassword_ids:
  "map doc_id (docs (snd (editPassword s userId i u))) = map doc_id (docs s)
   \<and> nextId (snd (editPassword s userId i u)) = nextId s"
proof -
  have "map doc_id (snd (update_first (matches [IdEq i, UserEq userId]) (apply_set u) (docs s)))
      = map doc_id (docs s)"
    by (rule update_first_ids) (rule doc_id_apply_set)
  then show ?thesis
    by (auto simp: editPassword_def findOneAndUpdate_def split: prod.split option.split)
qed

lemma wf_store_editPassword: "wf_store s \<Longrightarrow> wf_store (snd (editPassword s userId i u))"
proof -
  assume wf: "wf_store s"
  have "wf_store (snd (editPassword s userId i u)) = wf_store s"
    using editPassword_ids [of s userId i u] by (intro wf_store_same_ids) simp_all
  with wf show ?thesis by simp
qed

lemma remove_first_distinct:
  "distinct (map doc_id ds) \<Longrightarrow> distinct (map doc_id (remove_first p ds))"
proof (induction ds)
  case Nil
  show ?case by simp
next
  case (Cons a ds)
  have "doc_id ` set (remove_first p ds) \<subseteq> doc_id ` set ds"
    using remove_first_subset [of p ds] by blast
  with Cons show ?case by auto
qed

lemma remove_first_all: "list_all q ds \<Longrightarrow> list_all q (remove_first p ds)"
  using remove_first_subset [of p ds] by (auto simp: list_all_iff)

lemma wf_store_remove_first:
  "wf_store s \<Longrightarrow> wf_store (s\<lparr>docs := remove_first p (docs s)\<rparr>)"
  by (simp add: wf_store_def remove_first_distinct remove_first_all)

lemma wf_store_filter:
  "wf_store s \<Longrightarrow> wf_store (s\<lparr>docs := filter p (docs s)\<rparr>)"
  by (simp add: wf_store_def list_all_iff distinct_map_filter)

lemma wf_store_deleteSinglePassword:
  "wf_store s \<Longrightarrow> wf_store (snd (deleteSinglePassword s userId i))"
  by (simp add: deleteSinglePassword_def deleteOne_def Let_def wf_store_remove_first
      split: option.split)

lemma wf_store_deleteMultiplePasswords:
  "wf_store s \<Longrightarrow> wf_store (snd (deleteMultiplePasswords s userId ids))"
  by (simp add: deleteMultiplePasswords_def deleteMany_def wf_store_filter
      split: option.split)

section \<open>Adding an entry and reading it back\<close>

lemma find_after_misses: "\<forall>x\<in>set xs. \<not> p x \<Longrightarrow> find p (xs @ ys) = find p ys"
  by (induction xs) simp_all

text \<open>
  C4. On a collection that satisfies its invariant and holds no entry of the owner with
  the website name and url of the request, \<open>addPassword\<close> answers 201 and appends one
  document \<open>d\<close>; \<open>getSinglePassword\<close> of the same owner on the \<^verbatim>\<open>_id\<close> of \<open>d\<close> then
  answers with \<open>d\<close> itself, whose \<open>username\<close> and \<open>password\<close> are the ciphertext and iv
  pairs of the request, unchanged.
\<close>

theorem addPassword_getSinglePassword_roundtrip:
  assumes "wf_store s"
    and "\<forall>d\<in>set (docs s). \<not> (user d = userId \<and> websiteName d = req_websiteName b
           \<and> url d = req_websiteUrl b)"
  shows "\<exists>d. addPassword s userId b =
            (Inr (Message 201 True ''Password information added successfully.''),
             \<lparr>docs = docs s @ [d], nextId = Suc (nextId s)\<rparr>)
          \<and> getSinglePassword (snd (addPassword s userId b)) userId (ObjectId (doc_id d)) =
              Inr (Data 200 True None d)
          \<and> username d = Username (req_username b) (req_usernameIv b)
          \<and> password d = Password (req_password b) (req_passwordIv b)"
proof -
  define d where "d = \<lparr>doc_id = nextId s, user = userId, websiteName = req_websiteName b,
     url = req_websiteUrl b, username = Username (req_username b) (req_usernameIv b),
     password = Password (req_password b) (req_passwordIv b),
     passwordStrength = req_passwordStrength b, websiteNameIv = Undefined,
     urlIv = Undefined, usernameIv = Undefined, passwordIv = Undefined\<rparr>"
  have add: "addPassword s userId b =
      (Inr (Message 201 True ''Password information added successfully.''),
       \<lparr>docs = docs s @ [d], nextId = Suc (nextId s)\<rparr>)"
    using addPassword_absent [OF assms(2)] by (simp add: create_def Let_def d_def)
  have old: "\<forall>x\<in>set (docs s). \<not> matches [IdEq (ObjectId (doc_id d)), UserEq userId] x"
    using assms(1) by (auto simp: wf_store_def list_all_iff matches_id_user d_def)
  have new: "matches [IdEq (ObjectId (doc_id d)), UserEq userId] d"
    by (simp add: matches_id_user d_def)
  have "find (matches [IdEq (ObjectId (doc_id d)), UserEq userId]) (docs s @ [d]) = Some d"
    using new by (simp add: find_after_misses [OF old])
  then have get: "getSinglePassword (snd (addPassword s userId b)) userId (ObjectId (doc_id d)) =
      Inr (Data 200 True None d)"
    by (simp add: add getSinglePassword_def findOne_def castable_id_user)
  have "username d = Username (req_username b) (req_usernameIv b)"
    and "password d = Password (req_password b) (req_passwordIv b)"
    by (simp_all add: d_def)
  with add get show ?thesis by blast
qed

theorem addPassword_getSinglePassword_roundtrip_witness:
  "\<exists>d. addPassword empty_store 1 example_body =
          (Inr (Message 201 True ''Password information added successfully.''),
           \<lparr>docs = [d], nextId = 1\<rparr>)
        \<and> getSinglePassword (snd (addPassword empty_store 1 example_body)) 1 (ObjectId (doc_id d)) =
            Inr (Data 200 True None d)
        \<and> username d = Username ''c1'' ''iv1''
        \<and> password d = Password ''c2'' ''iv2''"
  using addPassword_getSinglePassword_roundtrip [of empty_store 1 example_body]
  by (simp add: empty_store_def example_body_def wf_store_def)

section \<open>The duplicate check compares the strings as they are\<close>

text \<open>
  C9. The existence check of \<open>addPassword\<close> is the equality of the website name and of
  the url with those of a document of the owner; nothing is folded or trimmed. So on a
  collection that holds neither pair for the owner, two requests whose pairs differ,
  in the case of one letter or anywhere else, are both answered 201, and the
  collection ends with two more documents, one for each request.
\<close>

theorem addPassword_exact_equality:
  assumes "(req_websiteName b1, req_websiteUrl b1) \<noteq> (req_websiteName b2, req_websiteUrl b2)"
    and "\<forall>d\<in>set (docs s). \<not> (user d = userId \<and> websiteName d = req_websiteName b1
           \<and> url d = req_websiteUrl b1)"
    and "\<forall>d\<in>set (docs s). \<not> (user d = userId \<and> websiteName d = req_websiteName b2
           \<and> url d = req_websiteUrl b2)"
  shows "\<exists>s1 s2 d1 d2.
           addPassword s userId b1 =
             (Inr (Message 201 True ''Password information added successfully.''), s1)
         \<and> addPassword s1 userId b2 =
             (Inr (Message 201 True ''Password information added successfully.''), s2)
         \<and> docs s2 = docs s @ [d1, d2]
         \<and> user d1 = userId \<and> websiteName d1 = req_websiteName b1 \<and> url d1 = req_websiteUrl b1
         \<and> user d2 = userId \<and> websiteName d2 = req_websiteName b2 \<and> url d2 = req_websiteUrl b2"
proof -
  define mk where "mk = (\<lambda>(b::add_body) n. \<lparr>doc_id = n, user = userId, websiteName = req_websiteName b,
     url = req_websiteUrl b, username = Username (req_username b) (req_usernameIv b),
     password = Password (req_password b) (req_passwordIv b),
     passwordStrength = req_passwordStrength b, websiteNameIv = Undefined,
     urlIv = Undefined, usernameIv = Undefined, passwordIv = Undefined\<rparr>)"
  define s1 where "s1 = \<lparr>docs = docs s @ [mk b1 (nextId s)], nextId = Suc (nextId s)\<rparr>"
  define s2 where "s2 = \<lparr>docs = docs s1 @ [mk b2 (nextId s1)], nextId = Suc (nextId s1)\<rparr>"
  have a1: "addPassword s userId b1 =
      (Inr (Message 201 True ''Password information added successfully.''), s1)"
    using addPassword_absent [OF assms(2)] by (simp add: create_def Let_def s1_def mk_def)
  have "\<forall>d\<in>set (docs s1). \<not> (user d = userId \<and> websiteName d = req_websiteName b2
           \<and> url d = req_websiteUrl b2)"
    using assms(1,3) by (auto simp: s1_def mk_def)
  from addPassword_absent [OF this]
  have a2: "addPassword s1 userId b2 =
      (Inr (Message 201 True ''Password information added successfully.''), s2)"
    by (simp add: create_def Let_def s2_def mk_def)
  have "docs s2 = docs s @ [mk b1 (nextId s), mk b2 (nextId s1)]"
    by (simp add: s2_def s1_def)
  moreover have "user (mk b1 (nextId s)) = userId \<and> websiteName (mk b1 (nextId s)) = req_websiteName b1
      \<and> url (mk b1 (nextId s)) = req_websiteUrl b1"
    by (simp add: mk_def)
  moreover have "user (mk b2 (nextId s1)) = userId \<and> websiteName (mk b2 (nextId s1)) = req_websiteName b2
      \<and> url (mk b2 (nextId s1)) = req_websiteUrl b2"
    by (simp add: mk_def)
  ultimately show ?thesis using a1 a2 by blast
qed

theorem addPassword_exact_equality_witness:
  "\<exists>s1 s2 d1 d2.
     addPassword empty_store 1 example_body =
       (Inr (Message 201 True ''Password information added successfully.''), s1)
   \<and> addPassword s1 1 example_body_lower =
       (Inr (Message 201 True ''Password information added successfully.''), s2)
   \<and> docs s2 = [d1, d2]
   \<and> user d1 = 1 \<and> websiteName d1 = ''GitHub'' \<and> url d1 = ''https://github.com''
   \<and> user d2 = 1 \<and> websiteName d2 = ''github'' \<and> url d2 = ''https://github.com''"
  using addPassword_exact_equality [of example_body example_body_lower empty_store 1]
  by (simp add: empty_store_def example_body_def example_body_lower_def)

section \<open>Deleting several entries\<close>

lemma deleteMany_in_user:
  "Uncastable \<notin> set ids \<Longrightarrow>
   deleteMany [IdIn ids, UserEq userId] s =
     Inr (length (filter (\<lambda>d. ObjectId (doc_id d) \<in> set ids \<and> user d = userId) (docs s)),
          s\<lparr>docs := filter (\<lambda>d. \<not> (ObjectId (doc_id d) \<in> set ids \<and> user d = userId)) (docs s)\<rparr>)"
proof -
  assume c: "Uncastable \<notin> set ids"
  have m: "matches [IdIn ids, UserEq userId] =
      (\<lambda>d. ObjectId (doc_id d) \<in> set ids \<and> user d = userId)"
    by (rule ext) (simp add: matches_in_user)
  show ?thesis using c by (simp add: deleteMany_def castable_in_user m)
qed

text \<open>
  C5. For an array of ObjectIds of which at least one is the \<^verbatim>\<open>_id\<close> of a document of
  the owner, \<open>deleteMultiplePasswords\<close> removes exactly the documents of the owner
  whose \<^verbatim>\<open>_id\<close> is in the array; every other document (of another owner, or with an
  \<^verbatim>\<open>_id\<close> that is not in the array) stays, and an id that names no document of the
  owner is no error. The count in the message of the 200 response is the number of
  documents removed.
\<close>

theorem deleteMultiplePasswords_mixed:
  assumes "Uncastable \<notin> set ids"
    and "\<exists>d\<in>set (docs s). ObjectId (doc_id d) \<in> set ids \<and> user d = userId"
  shows "deleteMultiplePasswords s userId (Some ids) =
           (Inr (Message 200 True
              (show_nat (length (filter (\<lambda>d. ObjectId (doc_id d) \<in> set ids \<and> user d = userId) (docs s)))
                 @ '' passwords have been successfully deleted.'')),
            s\<lparr>docs := filter (\<lambda>d. \<not> (ObjectId (doc_id d) \<in> set ids \<and> user d = userId)) (docs s)\<rparr>)
         \<and> length (docs s) =
             length (docs (snd (deleteMultiplePasswords s userId (Some ids))))
             + length (filter (\<lambda>d. ObjectId (doc_id d) \<in> set ids \<and> user d = userId) (docs s))"
proof -
  let ?own = "\<lambda>d. ObjectId (doc_id d) \<in> set ids \<and> user d = userId"
  from assms(2) have ne: "ids \<noteq> []" by auto
  from assms(2) have "filter ?own (docs s) \<noteq> []"
    by (simp add: filter_empty_conv)
  then have pos: "length (filter ?own (docs s)) \<noteq> 0" by simp
  have res: "deleteMultiplePasswords s userId (Some ids) =
      (Inr (Message 200 True
         (show_nat (length (filter ?own (docs s))) @ '' passwords have been successfully deleted.'')),
       s\<lparr>docs := filter (\<lambda>d. \<not> ?own d) (docs s)\<rparr>)"
    using ne pos
    by (simp add: deleteMultiplePasswords_def deleteMany_in_user [OF assms(1)])
  have "length (docs s) = length (filter (\<lambda>d. \<not> ?own d) (docs s)) + length (filter ?own (docs s))"
    using sum_length_filter_compl [of ?own "docs s"] by simp
  with res show ?thesis by simp
qed

theorem deleteMultiplePasswords_mixed_witness:
  "deleteMultiplePasswords example_store 1 (Some [ObjectId 0, ObjectId 1, ObjectId 7]) =
     (Inr (Message 200 True ''1 passwords have been successfully deleted.''),
      \<lparr>docs = [example_doc_other, example_doc_second], nextId = 3\<rparr>)"
proof -
  have c: "Uncastable \<notin> set [ObjectId 0, ObjectId 1, ObjectId 7]" by simp
  have e: "\<exists>d\<in>set (docs example_store).
      ObjectId (doc_id d) \<in> set [ObjectId 0, ObjectId 1, ObjectId 7] \<and> user d = 1"
    by (simp add: example_store_def example_doc_def)
  have n: "show_nat (Suc 0) = ''1''" by (simp add: show_nat.simps)
  from deleteMultiplePasswords_mixed [OF c e] show ?thesis
    by (simp add: example_store_def example_doc_def example_doc_other_def
        example_doc_second_def n)
qed

section \<open>Listing\<close>

lemma paginate_results_subset:
  "set (results (paginate s baseFilter searchTerm searchFields pg lim)) \<subseteq>
     {d \<in> set (docs s). matches baseFilter d \<and>
        (case searchTerm of None \<Rightarrow> True | Some t \<Rightarrow> search_hit t searchFields d)}"
proof -
  have t: "set (take_number n xs) \<subseteq> set xs" for n and xs :: "doc list"
    by (cases n) (auto dest: in_set_takeD)
  have d: "set (drop_number m xs) \<subseteq> set xs" for m and xs :: "doc list"
    by (cases m) (auto dest: in_set_dropD)
  have "set (take_number n (drop_number m xs)) \<subseteq> set xs" for n m and xs :: "doc list"
    using t [of n "drop_number m xs"] d [of m xs] by blast
  then show ?thesis
    by (fastforce simp: paginate_def Let_def)
qed

lemma search_hit_websiteName:
  "search_hit t [''websiteName''] d = contains (map lower t) (map lower (websiteName d))"
  by (simp add: search_hit_def field_text_def)

text \<open>
  C6. Whatever the pagination helper is, when the page it returns is empty
  \<open>getPassword\<close> hands the 404 error \<^verbatim>\<open>No passwords found\<close> to \<^verbatim>\<open>next\<close>, and a page it
  sends is never empty. In particular, with the helper as the spec describes it, a
  search term that is no substring (letter case ignored) of the website name of any
  document of the owner gives the 404 error.
\<close>

theorem getPassword_empty_NotFound:
  "(results (pg s [UserEq userId] (search q) [''websiteName''] (parsed_page q) (parsed_limit q)) = []
      \<longrightarrow> getPassword pg s userId q = Inl (ErrorHandler ''No passwords found'' 404))
   \<and> (getPassword pg s userId q = Inr (Page c ok info entries) \<longrightarrow> entries \<noteq> [])
   \<and> (search q = Some t
        \<and> (\<forall>d\<in>set (docs s). user d = userId \<longrightarrow>
              \<not> contains (map lower t) (map lower (websiteName d)))
      \<longrightarrow> getPassword paginate s userId q = Inl (ErrorHandler ''No passwords found'' 404))"
proof (intro conjI impI)
  assume "results (pg s [UserEq userId] (search q) [''websiteName''] (parsed_page q) (parsed_limit q)) = []"
  then show "getPassword pg s userId q = Inl (ErrorHandler ''No passwords found'' 404)"
    by (simp add: getPassword_def Let_def)
next
  assume "getPassword pg s userId q = Inr (Page c ok info entries)"
  then show "entries \<noteq> []"
    by (auto simp: getPassword_def Let_def split: if_splits)
next
  assume h: "search q = Some t
        \<and> (\<forall>d\<in>set (docs s). user d = userId \<longrightarrow>
              \<not> contains (map lower t) (map lower (websiteName d)))"
  have e: "{d \<in> set (docs s). matches [UserEq userId] d \<and>
        (case search q of None \<Rightarrow> True | Some t \<Rightarrow> search_hit t [''websiteName''] d)} = {}"
    using h by (auto simp: matches_def search_hit_websiteName)
  have "set (results (paginate s [UserEq userId] (search q) [''websiteName'']
           (parsed_page q) (parsed_limit q))) \<subseteq> {}"
    using paginate_results_subset [of s "[UserEq userId]" "search q" "[''websiteName'']"
        "parsed_page q" "parsed_limit q"]
    unfolding e .
  then have "results (paginate s [UserEq userId] (search q) [''websiteName'']
           (parsed_page q) (parsed_limit q)) = []"
    by simp
  then show "getPassword paginate s userId q = Inl (ErrorHandler ''No passwords found'' 404)"
    by (simp add: getPassword_def Let_def)
qed

theorem getPassword_empty_NotFound_witness:
  "getPassword paginate example_store 1 \<lparr>page = None, limit = None, search = Some ''zzz''\<rparr> =
     Inl (ErrorHandler ''No passwords found'' 404)"
proof -
  have h: "\<forall>d\<in>set (docs example_store). user d = 1 \<longrightarrow>
      \<not> contains (map lower ''zzz'') (map lower (websiteName d))"
    by code_simp
  from getPassword_empty_NotFound
    [of paginate example_store 1 "\<lparr>page = None, limit = None, search = Some ''zzz''\<rparr>"
      0 True undefined "[]" "''zzz''"] h
  show ?thesis by simp
qed

section \<open>Editing\<close>

lemma editPassword_cases:
  "i = Uncastable \<and> editPassword s userId i u = (Inl CastError, s)
   \<or> (\<forall>d\<in>set (docs s). \<not> matches [IdEq i, UserEq userId] d) \<and>
       editPassword s userId i u =
         (Inl (ErrorHandler ''Password not found or not owned by the user'' 404), s)
   \<or> (\<exists>xs d ys. docs s = xs @ d # ys \<and> (\<forall>x\<in>set xs. \<not> matches [IdEq i, UserEq userId] x)
         \<and> matches [IdEq i, UserEq userId] d
         \<and> editPassword s userId i u =
             (Inr (Data 200 True (Some ''Password updated successfully'') (apply_set u d)),
              s\<lparr>docs := xs @ apply_set u d # ys\<rparr>))"
proof (cases "i = Uncastable")
  case True
  then show ?thesis
    by (simp add: editPassword_def findOneAndUpdate_def castable_id_user)
next
  case False
  let ?f = "[IdEq i, UserEq userId]"
  from update_first_split [of "matches ?f" "apply_set u" "docs s"] show ?thesis
  proof
    assume "update_first (matches ?f) (apply_set u) (docs s) = (None, docs s)
        \<and> (\<forall>d\<in>set (docs s). \<not> matches ?f d)"
    with False show ?thesis
      by (simp add: editPassword_def findOneAndUpdate_def castable_id_user)
  next
    assume "\<exists>xs d ys. docs s = xs @ d # ys \<and> (\<forall>x\<in>set xs. \<not> matches ?f x) \<and> matches ?f d \<and>
        update_first (matches ?f) (apply_set u) (docs s) = (Some (apply_set u d), xs @ apply_set u d # ys)"
    then obtain xs d ys where h: "docs s = xs @ d # ys" "\<forall>x\<in>set xs. \<not> matches ?f x"
      "matches ?f d"
      "update_first (matches ?f) (apply_set u) (docs s) = (Some (apply_set u d), xs @ apply_set u d # ys)"
      by blast
    from h(4) False have "editPassword s userId i u =
        (Inr (Data 200 True (Some ''Password updated successfully'') (apply_set u d)),
         s\<lparr>docs := xs @ apply_set u d # ys\<rparr>)"
      by (simp add: editPassword_def findOneAndUpdate_def castable_id_user)
    with h(1,2,3) show ?thesis by blast
  qed
qed

lemma user_apply_set: "set_user u = None \<Longrightarrow> user (apply_set u d) = user d"
  by (simp add: apply_set_def or_else_def)

lemma user_apply_set_Some: "set_user u = Some v \<Longrightarrow> user (apply_set u d) = v"
  by (simp add: apply_set_def or_else_def)

lemma editPassword_keeps_owners:
  assumes "set_user u = None"
  shows "map user (docs (snd (editPassword s userId i u))) = map user (docs s)"
  using editPassword_cases [of i s userId u] user_apply_set [OF assms]
  by auto

lemma addPassword_docs:
  "docs (snd (addPassword s userId b)) = docs s
   \<or> (\<exists>d. docs (snd (addPassword s userId b)) = docs s @ [d])"
  by (auto simp: addPassword_def create_def Let_def split: sum.split option.split)

lemma deleteSinglePassword_docs:
  "docs (snd (deleteSinglePassword s userId p)) = docs s
   \<or> (\<exists>pid. p = Some pid \<and> pid \<noteq> Uncastable \<and>
        docs (snd (deleteSinglePassword s userId p)) =
          remove_first (matches [IdEq pid, UserEq userId]) (docs s))"
  by (auto simp: deleteSinglePassword_def deleteOne_def Let_def castable_id_user
      split: option.split)

lemma deleteMultiplePasswords_docs:
  "docs (snd (deleteMultiplePasswords s userId ids)) = docs s
   \<or> (\<exists>vs. ids = Some vs \<and>
        docs (snd (deleteMultiplePasswords s userId ids)) =
          filter (\<lambda>d. \<not> matches [IdIn vs, UserEq userId] d) (docs s))"
  by (auto simp: deleteMultiplePasswords_def deleteMany_def split: option.split)

text \<open>
  C3, as the claim has it, fails: the owner of a document is a path like any other,
  and an edit whose body has the key \<^verbatim>\<open>user\<close> sets it. Owner 1 edits the document 0
  with the body \<^verbatim>\<open>{ user: 2 }\<close>, and the document belongs to owner 2.
\<close>

theorem editPassword_sets_user_counterexample:
  "map user (docs example_store) = [1, 2, 1]
   \<and> editPassword example_store 1 (ObjectId 0) (no_updates\<lparr>set_user := Some 2\<rparr>) =
       (Inr (Data 200 True (Some ''Password updated successfully'') (example_doc\<lparr>user := 2\<rparr>)),
        \<lparr>docs = [example_doc\<lparr>user := 2\<rparr>, example_doc_other, example_doc_second], nextId = 3\<rparr>)"
  by code_simp

text \<open>
  C3, as the code has it. The owner of a document that exists stays what it is under
  \<open>addPassword\<close> (the documents are kept and at most one is appended), under
  \<open>deleteSinglePassword\<close> and \<open>deleteMultiplePasswords\<close> (every document left is one
  that was there), and under every \<open>editPassword\<close> whose body has no key \<^verbatim>\<open>user\<close> (the
  ids and the owners are the same, document by document). An \<open>editPassword\<close> whose
  body has the key \<^verbatim>\<open>user\<close> and that finds its document sets the owner of that document
  to the value of the key.
\<close>

theorem owner_kept_unless_edit_sets_user:
  "(set_user u = None \<longrightarrow>
       map user (docs (snd (editPassword s userId i u))) = map user (docs s)
       \<and> map doc_id (docs (snd (editPassword s userId i u))) = map doc_id (docs s))
   \<and> (docs (snd (addPassword s userId b)) = docs s
        \<or> (\<exists>d. docs (snd (addPassword s userId b)) = docs s @ [d]))
   \<and> set (docs (snd (deleteSinglePassword s userId p))) \<subseteq> set (docs s)
   \<and> set (docs (snd (deleteMultiplePasswords s userId ids))) \<subseteq> set (docs s)
   \<and> (set_user u = Some v \<and> editPassword s userId i u = (Inr (Data c ok m d), s') \<longrightarrow>
        user d = v \<and> d \<in> set (docs s')
        \<and> (\<exists>d0\<in>set (docs s). user d0 = userId \<and> doc_id d0 = doc_id d))"
proof (intro conjI impI)
  assume "set_user u = None"
  then show "map user (docs (snd (editPassword s userId i u))) = map user (docs s)"
    by (rule editPassword_keeps_owners)
next
  show "map doc_id (docs (snd (editPassword s userId i u))) = map doc_id (docs s)"
    using editPassword_ids [of s userId i u] by simp
next
  show "docs (snd (addPassword s userId b)) = docs s
        \<or> (\<exists>d. docs (snd (addPassword s userId b)) = docs s @ [d])"
    by (rule addPassword_docs)
next
  show "set (docs (snd (deleteSinglePassword s userId p))) \<subseteq> set (docs s)"
    using deleteSinglePassword_docs [of s userId p] remove_first_subset by fastforce
next
  show "set (docs (snd (deleteMultiplePasswords s userId ids))) \<subseteq> set (docs s)"
    using deleteMultiplePasswords_docs [of s userId ids] by auto
next
  assume a: "set_user u = Some v \<and> editPassword s userId i u = (Inr (Data c ok m d), s')"
  from editPassword_cases [of i s userId u] a
  obtain xs d0 ys where h: "docs s = xs @ d0 # ys" "matches [IdEq i, UserEq userId] d0"
    "d = apply_set u d0" "s' = s\<lparr>docs := xs @ apply_set u d0 # ys\<rparr>"
    by auto
  from a h(3) show "user d = v" by (simp add: user_apply_set_Some)
  from h(3,4) show "d \<in> set (docs s')" by simp
  from h(1,2,3) show "\<exists>d0\<in>set (docs s). user d0 = userId \<and> doc_id d0 = doc_id d"
    by (auto simp: matches_id_user doc_id_apply_set)
qed

theorem owner_kept_unless_edit_sets_user_witness:
  "map user (docs (snd (editPassword example_store 1 (ObjectId 0)
       (no_updates\<lparr>set_websiteName := Some ''Hub''\<rparr>)))) = [1, 2, 1]
   \<and> map websiteName (docs (snd (editPassword example_store 1 (ObjectId 0)
       (no_updates\<lparr>set_websiteName := Some ''Hub''\<rparr>)))) = [''Hub'', ''GitHub'', ''GitLab'']"
proof -
  have e: "map user (docs example_store) = [1, 2, 1]"
    and w: "map websiteName (docs (snd (editPassword example_store 1 (ObjectId 0)
       (no_updates\<lparr>set_websiteName := Some ''Hub''\<rparr>)))) = [''Hub'', ''GitHub'', ''GitLab'']"
    and n: "set_user (no_updates\<lparr>set_websiteName := Some ''Hub''\<rparr>) = None"
    by code_simp+
  from owner_kept_unless_edit_sets_user
    [of "no_updates\<lparr>set_websiteName := Some ''Hub''\<rparr>" example_store 1 "ObjectId 0"]
    e w n
  show ?thesis by simp
qed

section \<open>One owner's requests and another owner's documents\<close>

lemma getSinglePassword_found:
  assumes "getSinglePassword s a i = Inr (Data c ok m d)"
  shows "d \<in> set (docs s) \<and> user d = a \<and> i = ObjectId (doc_id d)"
proof -
  from assms have f: "find (matches [IdEq i, UserEq a]) (docs s) = Some d"
    by (auto simp: getSinglePassword_def findOne_def split: if_splits option.splits)
  then have "d \<in> set (docs s)" and "matches [IdEq i, UserEq a] d"
    by (auto simp: find_Some_iff in_set_conv_nth)
  then show ?thesis by (simp add: matches_id_user)
qed

lemma editPassword_keeps_others:
  assumes "x \<in> set (docs s)" and "user x \<noteq> a"
  shows "x \<in> set (docs (snd (editPassword s a i u)))"
proof -
  from editPassword_cases [of i s a u]
  consider "docs (snd (editPassword s a i u)) = docs s"
    | xs d ys where "docs s = xs @ d # ys" "matches [IdEq i, UserEq a] d"
        "docs (snd (editPassword s a i u)) = xs @ apply_set u d # ys"
    by fastforce
  then show ?thesis
  proof cases
    case 1
    with assms(1) show ?thesis by simp
  next
    case 2
    from 2(2) have "user d = a" by (simp add: matches_id_user)
    with assms(2) have "x \<noteq> d" by auto
    with assms(1) 2(1) have "x \<in> set xs \<or> x \<in> set ys" by auto
    with 2(3) show ?thesis by auto
  qed
qed

lemma editPassword_returns_own:
  assumes "editPassword s a i u = (Inr (Data c ok m d), s')"
  shows "\<exists>d0\<in>set (docs s). user d0 = a \<and> d = apply_set u d0"
proof -
  from editPassword_cases [of i s a u] assms
  obtain xs d0 ys where "docs s = xs @ d0 # ys" "matches [IdEq i, UserEq a] d0"
    "d = apply_set u d0"
    by auto
  then show ?thesis by (auto simp: matches_id_user)
qed

lemma deleteSinglePassword_keeps_others:
  assumes "a \<noteq> b"
  shows "filter (\<lambda>x. user x = b) (docs (snd (deleteSinglePassword s a p))) =
           filter (\<lambda>x. user x = b) (docs s)"
proof -
  have "filter (\<lambda>x. user x = b) (remove_first (matches [IdEq pid, UserEq a]) (docs s)) =
      filter (\<lambda>x. user x = b) (docs s)" for pid
    by (rule remove_first_filter) (use assms in \<open>simp add: matches_id_user\<close>)
  with deleteSinglePassword_docs [of s a p] show ?thesis by auto
qed

lemma deleteMultiplePasswords_keeps_others:
  assumes "a \<noteq> b"
  shows "filter (\<lambda>x. user x = b) (docs (snd (deleteMultiplePasswords s a ids))) =
           filter (\<lambda>x. user x = b) (docs s)"
proof -
  have "filter (\<lambda>x. user x = b) (filter (\<lambda>d. \<not> matches [IdIn vs, UserEq a] d) (docs s)) =
      filter (\<lambda>x. user x = b) (docs s)" for vs
    using assms by (auto simp: matches_in_user intro: filter_cong)
  with deleteMultiplePasswords_docs [of s a ids] show ?thesis by auto
qed

lemma getPassword_paginate_own:
  assumes "getPassword paginate s a q = Inr (Page c ok info entries)"
  shows "\<exists>ds. entries = map passwordForClient ds \<and> set ds \<subseteq> {x \<in> set (docs s). user x = a}"
proof -
  let ?r = "results (paginate s [UserEq a] (search q) [''websiteName''] (parsed_page q)
      (parsed_limit q))"
  from assms have e: "entries = map passwordForClient ?r"
    by (auto simp: getPassword_def Let_def split: if_splits)
  have "set ?r \<subseteq> {x \<in> set (docs s). user x = a}"
    using paginate_results_subset [of s "[UserEq a]" "search q" "[''websiteName'']"
        "parsed_page q" "parsed_limit q"]
    by (auto simp: matches_def)
  with e show ?thesis by blast
qed

text \<open>
  C1. Let \<open>a\<close> and \<open>b\<close> be two owners, and let a handler be called for \<open>a\<close>, with
  any id, also the id of a document of \<open>b\<close>. Ownership is that of the collection the
  handler is called on.
  \<^item> \<open>getSinglePassword\<close> answers only with a document of the collection whose owner
    is \<open>a\<close>.
  \<^item> \<open>editPassword\<close> leaves every document of \<open>b\<close> in the collection as it is, and
    the document it answers with is the update of a document whose owner was \<open>a\<close>.
  \<^item> \<open>deleteSinglePassword\<close> and \<open>deleteMultiplePasswords\<close> leave the documents of
    \<open>b\<close> as they are, all of them and in their order.
  \<^item> \<open>getPassword\<close>, with the pagination helper as the spec describes it, answers
    only with entries made from documents whose owner is \<open>a\<close>.
  Each query has the condition \<^verbatim>\<open>user: userId\<close> in its filter.
\<close>

theorem handlers_keep_to_owner:
  assumes "a \<noteq> b"
  shows "(getSinglePassword s a i = Inr (Data c ok m d) \<longrightarrow>
            d \<in> set (docs s) \<and> user d = a \<and> user d \<noteq> b)
   \<and> (\<forall>x\<in>set (docs s). user x = b \<longrightarrow> x \<in> set (docs (snd (editPassword s a i u))))
   \<and> (editPassword s a i u = (Inr (Data c ok m d), s') \<longrightarrow>
         (\<exists>d0\<in>set (docs s). user d0 = a \<and> user d0 \<noteq> b \<and> d = apply_set u d0))
   \<and> filter (\<lambda>x. user x = b) (docs (snd (deleteSinglePassword s a p))) =
        filter (\<lambda>x. user x = b) (docs s)
   \<and> filter (\<lambda>x. user x = b) (docs (snd (deleteMultiplePasswords s a ids))) =
        filter (\<lambda>x. user x = b) (docs s)
   \<and> (getPassword paginate s a q = Inr (Page c ok info entries) \<longrightarrow>
         (\<exists>ds. entries = map passwordForClient ds
            \<and> set ds \<subseteq> {x \<in> set (docs s). user x = a \<and> user x \<noteq> b}))"
proof (intro conjI impI ballI)
  assume "getSinglePassword s a i = Inr (Data c ok m d)"
  from getSinglePassword_found [OF this] assms
  show "d \<in> set (docs s)" and "user d = a" and "user d \<noteq> b" by simp_all
next
  fix x assume "x \<in> set (docs s)" and "user x = b"
  with assms show "x \<in> set (docs (snd (editPassword s a i u)))"
    by (intro editPassword_keeps_others) simp_all
next
  assume "editPassword s a i u = (Inr (Data c ok m d), s')"
  from editPassword_returns_own [OF this] assms
  show "\<exists>d0\<in>set (docs s). user d0 = a \<and> user d0 \<noteq> b \<and> d = apply_set u d0" by blast
next
  show "filter (\<lambda>x. user x = b) (docs (snd (deleteSinglePassword s a p))) =
        filter (\<lambda>x. user x = b) (docs s)"
    by (rule deleteSinglePassword_keeps_others [OF assms])
next
  show "filter (\<lambda>x. user x = b) (docs (snd (deleteMultiplePasswords s a ids))) =
        filter (\<lambda>x. user x = b) (docs s)"
    by (rule deleteMultiplePasswords_keeps_others [OF assms])
next
  assume "getPassword paginate s a q = Inr (Page c ok info entries)"
  from getPassword_paginate_own [OF this] assms
  show "\<exists>ds. entries = map passwordForClient ds
      \<and> set ds \<subseteq> {x \<in> set (docs s). user x = a \<and> user x \<noteq> b}"
    by auto
qed

theorem handlers_keep_to_owner_witness:
  "getSinglePassword example_store 1 (ObjectId 1) =
     Inl (ErrorHandler ''Password not found or access denied.'' 404)
   \<and> editPassword example_store 1 (ObjectId 1) (no_updates\<lparr>set_websiteName := Some ''Hub''\<rparr>) =
       (Inl (ErrorHandler ''Password not found or not owned by the user'' 404), example_store)
   \<and> deleteSinglePassword example_store 1 (Some (ObjectId 1)) =
       (Inl (ErrorHandler ''Password not found or not owned by the user.'' 404), example_store)
   \<and> docs (snd (deleteMultiplePasswords example_store 1 (Some [ObjectId 1, ObjectId 0]))) =
       [example_doc_other, example_doc_second]
   \<and> filter (\<lambda>x. user x = 2) (docs (snd (deleteMultiplePasswords example_store 1
        (Some [ObjectId 1, ObjectId 0])))) = [example_doc_other]
   \<and> getPassword paginate example_store 1 \<lparr>page = None, limit = None, search = None\<rparr> =
       Inr (Page 201 True \<lparr>currentPage = Finite 1, totalPages = Finite 1, totalCount = Finite 2,
           pageSize = Finite 10\<rparr>
         [passwordForClient example_doc, passwordForClient example_doc_second])"
proof -
  have e: "getSinglePassword example_store 1 (ObjectId 1) =
     Inl (ErrorHandler ''Password not found or access denied.'' 404)
   \<and> editPassword example_store 1 (ObjectId 1) (no_updates\<lparr>set_websiteName := Some ''Hub''\<rparr>) =
       (Inl (ErrorHandler ''Password not found or not owned by the user'' 404), example_store)
   \<and> deleteSinglePassword example_store 1 (Some (ObjectId 1)) =
       (Inl (ErrorHandler ''Password not found or not owned by the user.'' 404), example_store)
   \<and> docs (snd (deleteMultiplePasswords example_store 1 (Some [ObjectId 1, ObjectId 0]))) =
       [example_doc_other, example_doc_second]
   \<and> filter (\<lambda>x. user x = 2) (docs example_store) = [example_doc_other]
   \<and> getPassword paginate example_store 1 \<lparr>page = None, limit = None, search = None\<rparr> =
       Inr (Page 201 True \<lparr>currentPage = Finite 1, totalPages = Finite 1, totalCount = Finite 2,
           pageSize = Finite 10\<rparr>
         [passwordForClient example_doc, passwordForClient example_doc_second])"
    by code_simp
  have n: "(1::nat) \<noteq> 2" by simp
  from handlers_keep_to_owner
      [OF n, where s = example_store and ids = "Some [ObjectId 1, ObjectId 0]"] e
  show ?thesis by simp
qed

section \<open>The page and the limit\<close>

lemma parseInt_undefined: "parseInt (js ''undefined'') = NaN"
  by code_simp

lemma digit_val_nonneg: "digit_val r c = Some d \<Longrightarrow> 0 \<le> d"
  by (auto simp: digit_val_def Let_def split: if_splits option.splits)

lemma digits_prefix_nonneg: "\<forall>d\<in>set (digits_prefix r s). 0 \<le> d"
  by (induction s) (auto split: option.splits dest: digit_val_nonneg [OF sym] digit_val_nonneg)

lemma digits_value_nonneg:
  assumes "0 \<le> (r::int)" and "\<forall>d\<in>set ds. 0 \<le> d" and "0 \<le> a0"
  shows "0 \<le> foldl (\<lambda>a d. a * r + d) a0 ds"
  using assms(2,3)
proof (induction ds arbitrary: a0)
  case Nil
  then show ?case by simp
next
  case (Cons d ds)
  from Cons.prems assms(1) have "0 \<le> a0 * r + d"
    by (simp add: add_nonneg_nonneg mult_nonneg_nonneg)
  with Cons show ?case by simp
qed

lemma round_double_nonneg:
  assumes "round_double a = Some v" and "0 \<le> a"
  shows "0 \<le> v"
proof (cases "a < 2 ^ 53")
  case True
  with assms show ?thesis by (simp add: round_double_def)
next
  case False
  define e where "e = bitlen a - 53"
  have q: "0 \<le> a div 2 ^ e" using assms(2) by (simp add: pos_imp_zdiv_nonneg_iff)
  from assms(1) False
  have "v = a div 2 ^ e * 2 ^ e \<or> v = (a div 2 ^ e + 1) * 2 ^ e"
    by (auto simp: round_double_def Let_def e_def split: if_splits)
  then show ?thesis
  proof
    assume "v = a div 2 ^ e * 2 ^ e"
    with q show ?thesis by simp
  next
    assume "v = (a div 2 ^ e + 1) * 2 ^ e"
    moreover from q have "0 \<le> (a div 2 ^ e + 1) * 2 ^ e"
      by (intro mult_nonneg_nonneg) simp_all
    ultimately show ?thesis by simp
  qed
qed

lemma strip_prefix_radix: "strip_prefix s = (r, t) \<Longrightarrow> 0 \<le> r"
  by (auto simp: strip_prefix_def split: list.splits if_splits)

lemma parseInt_negative:
  assumes "negative (parseInt s)"
  shows "\<exists>rest. dropWhile is_space s = 0x2D # rest"
proof -
  obtain neg s2 where ss: "strip_sign (dropWhile is_space s) = (neg, s2)"
    by (cases "strip_sign (dropWhile is_space s)")
  obtain r s3 where sp: "strip_prefix s2 = (r, s3)"
    by (cases "strip_prefix s2")
  define a where "a = foldl (\<lambda>a d. a * r + d) 0 (digits_prefix r s3)"
  have a: "0 \<le> a"
    unfolding a_def
    using strip_prefix_radix [OF sp] digits_prefix_nonneg [of r s3]
    by (intro digits_value_nonneg) simp_all
  have p: "parseInt s =
      (if digits_prefix r s3 = [] then NaN
       else (case round_double a of
               None \<Rightarrow> if neg then NegInfinity else Infinity
             | Some v \<Rightarrow> Finite (if neg then - v else v)))"
    by (simp add: parseInt_def ss sp Let_def a_def)
  have "neg"
  proof (rule ccontr)
    assume n: "\<not> neg"
    show False
    proof (cases "round_double a")
      case None
      with assms p n show False by (simp split: if_splits)
    next
      case (Some v)
      with round_double_nonneg [OF Some a] assms p n show False
        by (simp split: if_splits)
    qed
  qed
  with ss show ?thesis
    by (auto simp: strip_sign_def split: list.splits if_splits)
qed

text \<open>
  C7, as the code has it. A page or limit that is not set, that \<open>parseInt\<close> reads as
  NaN, or that it reads as zero becomes 1 (page) or 10 (limit). Any other value is the
  number \<open>parseInt\<close> reads, passed on as it is: it is below 1 exactly when the
  parameter is a negative number, which after white space starts with a minus sign.
  \<open>getPassword\<close> applies no clamp.
\<close>

theorem parsed_page_limit_defaults:
  "(page q = None \<longrightarrow> parsed_page q = Finite 1)
   \<and> (limit q = None \<longrightarrow> parsed_limit q = Finite 10)
   \<and> (page q = Some sp \<and> (parseInt sp = NaN \<or> parseInt sp = Finite 0) \<longrightarrow>
        parsed_page q = Finite 1)
   \<and> (limit q = Some sl \<and> (parseInt sl = NaN \<or> parseInt sl = Finite 0) \<longrightarrow>
        parsed_limit q = Finite 10)
   \<and> (page q = Some sp \<and> parseInt sp \<noteq> NaN \<and> parseInt sp \<noteq> Finite 0 \<longrightarrow>
        parsed_page q = parseInt sp)
   \<and> (limit q = Some sl \<and> parseInt sl \<noteq> NaN \<and> parseInt sl \<noteq> Finite 0 \<longrightarrow>
        parsed_limit q = parseInt sl)
   \<and> (below_one (parsed_page q) \<longleftrightarrow> (\<exists>s. page q = Some s \<and> negative (parseInt s)))
   \<and> (below_one (parsed_limit q) \<longleftrightarrow> (\<exists>s. limit q = Some s \<and> negative (parseInt s)))
   \<and> (negative (parseInt s) \<longrightarrow> (\<exists>rest. dropWhile is_space s = 0x2D # rest))"
proof -
  have b: "below_one (or_default v d) \<longleftrightarrow> negative v" if "1 \<le> d" for v d
    using that by (cases v) (auto simp: or_default_def)
  have p: "below_one (parsed_page q) \<longleftrightarrow> (\<exists>s. page q = Some s \<and> negative (parseInt s))"
    by (cases "page q") (simp_all add: parsed_page_def b parseInt_param_def parseInt_undefined)
  have l: "below_one (parsed_limit q) \<longleftrightarrow> (\<exists>s. limit q = Some s \<and> negative (parseInt s))"
    by (cases "limit q") (simp_all add: parsed_limit_def b parseInt_param_def parseInt_undefined)
  have d: "(page q = None \<longrightarrow> parsed_page q = Finite 1)
      \<and> (limit q = None \<longrightarrow> parsed_limit q = Finite 10)"
    by (simp add: parsed_page_def parsed_limit_def parseInt_param_def parseInt_undefined
        or_default_def)
  have n: "(page q = Some sp \<and> (parseInt sp = NaN \<or> parseInt sp = Finite 0) \<longrightarrow>
        parsed_page q = Finite 1)
      \<and> (limit q = Some sl \<and> (parseInt sl = NaN \<or> parseInt sl = Finite 0) \<longrightarrow>
        parsed_limit q = Finite 10)"
    by (auto simp: parsed_page_def parsed_limit_def parseInt_param_def or_default_def)
  have v1: "page q = Some sp \<and> parseInt sp \<noteq> NaN \<and> parseInt sp \<noteq> Finite 0 \<longrightarrow>
        parsed_page q = parseInt sp"
    by (cases "parseInt sp") (auto simp: parsed_page_def parseInt_param_def or_default_def)
  have v2: "limit q = Some sl \<and> parseInt sl \<noteq> NaN \<and> parseInt sl \<noteq> Finite 0 \<longrightarrow>
        parsed_limit q = parseInt sl"
    by (cases "parseInt sl") (auto simp: parsed_limit_def parseInt_param_def or_default_def)
  have g: "negative (parseInt s) \<longrightarrow> (\<exists>rest. dropWhile is_space s = 0x2D # rest)"
    using parseInt_negative by blast
  from p l d n v1 v2 g show ?thesis by blast
qed

theorem parsed_page_limit_defaults_witness:
  "parsed_page \<lparr>page = None, limit = Some (js ''ten''), search = None\<rparr> = Finite 1
   \<and> parsed_limit \<lparr>page = None, limit = Some (js ''ten''), search = None\<rparr> = Finite 10
   \<and> parsed_page \<lparr>page = Some (0xA0 # js ''25px''), limit = Some (js ''0''), search = None\<rparr>
       = Finite 25
   \<and> parsed_limit \<lparr>page = Some (0xA0 # js ''25px''), limit = Some (js ''0''), search = None\<rparr>
       = Finite 10
   \<and> parsed_page \<lparr>page = Some (js ''9007199254740993''), limit = Some (js ''0x1F''),
        search = None\<rparr> = Finite 9007199254740992
   \<and> parsed_limit \<lparr>page = Some (js ''9007199254740993''), limit = Some (js ''0x1F''),
        search = None\<rparr> = Finite 31"
proof -
  have a: "parseInt (js ''ten'') = NaN" and b: "parseInt (0xA0 # js ''25px'') = Finite 25"
    and c: "parseInt (js ''0'') = Finite 0"
    and d: "parseInt (js ''9007199254740993'') = Finite 9007199254740992"
    and e: "parseInt (js ''0x1F'') = Finite 31"
    by code_simp+
  from parsed_page_limit_defaults
      [of "\<lparr>page = None, limit = Some (js ''ten''), search = None\<rparr>" "js ''ten''" "js ''ten''"]
    parsed_page_limit_defaults
      [of "\<lparr>page = Some (0xA0 # js ''25px''), limit = Some (js ''0''), search = None\<rparr>"
        "0xA0 # js ''25px''" "js ''0''"]
    parsed_page_limit_defaults
      [of "\<lparr>page = Some (js ''9007199254740993''), limit = Some (js ''0x1F''), search = None\<rparr>"
        "js ''9007199254740993''" "js ''0x1F''"]
    a b c d e
  show ?thesis by simp
qed

text \<open>
  C7, as the claim has it, fails: the page \<^verbatim>\<open>-3\<close> and the limit \<^verbatim>\<open>-7\<close> reach the
  pagination helper as \<open>-3\<close> and \<open>-7\<close>.
\<close>

theorem getPassword_negative_page_counterexample:
  "parsed_page example_query_negative = Finite (- 3)
   \<and> parsed_limit example_query_negative = Finite (- 7)
   \<and> getPassword echo_paginate example_store 2 example_query_negative =
       Inr (Page 201 True
         \<lparr>currentPage = Finite (- 3), totalPages = Finite 0, totalCount = Finite 0,
            pageSize = Finite (- 7)\<rparr>
         [passwordForClient example_doc_other])"
  by code_simp

section \<open>The entries of a page\<close>

lemma stringify_Undefined: "stringify v = Undefined \<longleftrightarrow> v = Undefined"
  by (cases v) simp_all

lemma stringify_object_Cons:
  "stringify_object ((k, v) # kvs) =
     (if v = Undefined then stringify_object kvs else (k, stringify v) # stringify_object kvs)"
  by (simp add: stringify_object_def stringify_Undefined)

lemma stringify_object_Nil: "stringify_object [] = []"
  by (simp add: stringify_object_def)

lemma stringify_object_keys: "set (map fst (stringify_object kvs)) \<subseteq> set (map fst kvs)"
  by (force simp: stringify_object_def)

text \<open>
  C10, as the claim has it, fails: \<open>addPassword\<close> sets none of the paths
  \<^verbatim>\<open>websiteNameIv\<close>, \<^verbatim>\<open>urlIv\<close>, \<^verbatim>\<open>usernameIv\<close>, \<^verbatim>\<open>passwordIv\<close>, so they are undefined on
  the document it creates, and the entry that is written for it has six keys, not ten.
\<close>

theorem getPassword_payload_counterexample:
  "res_json_entries (projr (getPassword paginate (snd (addPassword empty_store 1 example_body)) 1
       \<lparr>page = None, limit = None, search = None\<rparr>)) =
     [[(''id'', Oid 0), (''websiteName'', Str ''GitHub''), (''url'', Str ''https://github.com''),
       (''username'', Obj [(''encUsername'', Str ''c1''), (''iv'', Str ''iv1'')]),
       (''password'', Obj [(''encPassword'', Str ''c2''), (''iv'', Str ''iv2'')]),
       (''passwordStrength'', Str ''Strong'')]]"
  by code_simp

text \<open>
  C10, as the code has it. The entry written for a document has the keys \<^verbatim>\<open>id\<close>,
  \<^verbatim>\<open>websiteName\<close>, \<^verbatim>\<open>url\<close>, \<^verbatim>\<open>username\<close>, \<^verbatim>\<open>password\<close> with the values of the document
  (\<^verbatim>\<open>username\<close> and \<^verbatim>\<open>password\<close> as the objects of ciphertext and iv), followed by those
  of \<^verbatim>\<open>passwordStrength\<close>, \<^verbatim>\<open>websiteNameIv\<close>, \<^verbatim>\<open>urlIv\<close>, \<^verbatim>\<open>usernameIv\<close>, \<^verbatim>\<open>passwordIv\<close>
  whose value on the document is defined, each with that value. Every key is one of
  the ten; none is \<^verbatim>\<open>user\<close>, \<^verbatim>\<open>createdAt\<close> or \<^verbatim>\<open>updatedAt\<close>, and the entry does not depend
  on the owner of the document. The entries written for a page \<open>getPassword\<close> sends
  are these, one for each document of the page and in its order, for whatever
  pagination helper.
\<close>

theorem getPassword_payload_entries:
  "stringify_object (passwordForClient e) =
     [(''id'', Oid (doc_id e)), (''websiteName'', Str (websiteName e)), (''url'', Str (url e)),
      (''username'', Obj [(''encUsername'', Str (encUsername (username e))),
                          (''iv'', Str (username_iv (username e)))]),
      (''password'', Obj [(''encPassword'', Str (encPassword (password e))),
                          (''iv'', Str (password_iv (password e)))])]
     @ filter (\<lambda>kv. snd kv \<noteq> Undefined)
         [(''passwordStrength'', stringify (passwordStrength e)),
          (''websiteNameIv'', stringify (websiteNameIv e)),
          (''urlIv'', stringify (urlIv e)),
          (''usernameIv'', stringify (usernameIv e)),
          (''passwordIv'', stringify (passwordIv e))]
   \<and> set (map fst (stringify_object (passwordForClient e))) \<subseteq> set client_fields
   \<and> ''user'' \<notin> set client_fields \<and> ''createdAt'' \<notin> set client_fields
   \<and> ''updatedAt'' \<notin> set client_fields
   \<and> stringify_object (passwordForClient (e\<lparr>user := u\<rparr>)) = stringify_object (passwordForClient e)
   \<and> (getPassword pg s userId q = Inr r \<longrightarrow>
        res_json_entries r = map (\<lambda>d. stringify_object (passwordForClient d))
          (results (pg s [UserEq userId] (search q) [''websiteName''] (parsed_page q)
             (parsed_limit q))))"
proof (intro conjI impI)
  show "stringify_object (passwordForClient e) =
     [(''id'', Oid (doc_id e)), (''websiteName'', Str (websiteName e)), (''url'', Str (url e)),
      (''username'', Obj [(''encUsername'', Str (encUsername (username e))),
                          (''iv'', Str (username_iv (username e)))]),
      (''password'', Obj [(''encPassword'', Str (encPassword (password e))),
                          (''iv'', Str (password_iv (password e)))])]
     @ filter (\<lambda>kv. snd kv \<noteq> Undefined)
         [(''passwordStrength'', stringify (passwordStrength e)),
          (''websiteNameIv'', stringify (websiteNameIv e)),
          (''urlIv'', stringify (urlIv e)),
          (''usernameIv'', stringify (usernameIv e)),
          (''passwordIv'', stringify (passwordIv e))]"
    by (simp add: passwordForClient_def stringify_object_def)
  have "set (map fst (passwordForClient e)) = set client_fields"
    by (simp add: passwordForClient_def client_fields_def)
  with stringify_object_keys [of "passwordForClient e"]
  show "set (map fst (stringify_object (passwordForClient e))) \<subseteq> set client_fields"
    by simp
  show "''user'' \<notin> set client_fields" by (simp add: client_fields_def)
  show "''createdAt'' \<notin> set client_fields" by (simp add: client_fields_def)
  show "''updatedAt'' \<notin> set client_fields" by (simp add: client_fields_def)
  show "stringify_object (passwordForClient (e\<lparr>user := u\<rparr>)) = stringify_object (passwordForClient e)"
    by (simp add: passwordForClient_def)
next
  assume "getPassword pg s userId q = Inr r"
  then show "res_json_entries r = map (\<lambda>d. stringify_object (passwordForClient d))
      (results (pg s [UserEq userId] (search q) [''websiteName''] (parsed_page q) (parsed_limit q)))"
    by (auto simp: getPassword_def Let_def res_json_entries_def split: if_splits)
qed

theorem getPassword_payload_entries_witness:
  "res_json_entries (projr (getPassword paginate
       \<lparr>docs = [example_doc\<lparr>websiteNameIv := Str ''w'', passwordIv := Str ''p''\<rparr>], nextId = 1\<rparr>
       1 \<lparr>page = None, limit = None, search = None\<rparr>)) =
     [[(''id'', Oid 0), (''websiteName'', Str ''GitHub''), (''url'', Str ''https://github.com''),
       (''username'', Obj [(''encUsername'', Str ''a''), (''iv'', Str ''b'')]),
       (''password'', Obj [(''encPassword'', Str ''c''), (''iv'', Str ''d'')]),
       (''passwordStrength'', Num 3), (''websiteNameIv'', Str ''w''), (''passwordIv'', Str ''p'')]]"
proof -
  let ?s = "\<lparr>docs = [example_doc\<lparr>websiteNameIv := Str ''w'', passwordIv := Str ''p''\<rparr>], nextId = 1\<rparr>"
  let ?q = "\<lparr>page = None, limit = None, search = None\<rparr>"
  have g: "getPassword paginate ?s 1 ?q = Inr (projr (getPassword paginate ?s 1 ?q))"
    and r: "results (paginate ?s [UserEq 1] (search ?q) [''websiteName''] (parsed_page ?q)
        (parsed_limit ?q)) = [example_doc\<lparr>websiteNameIv := Str ''w'', passwordIv := Str ''p''\<rparr>]"
    by code_simp+
  have e: "stringify_object (passwordForClient
        (example_doc\<lparr>websiteNameIv := Str ''w'', passwordIv := Str ''p''\<rparr>)) =
     [(''id'', Oid 0), (''websiteName'', Str ''GitHub''), (''url'', Str ''https://github.com''),
       (''username'', Obj [(''encUsername'', Str ''a''), (''iv'', Str ''b'')]),
       (''password'', Obj [(''encPassword'', Str ''c''), (''iv'', Str ''d'')]),
       (''passwordStrength'', Num 3), (''websiteNameIv'', Str ''w''), (''passwordIv'', Str ''p'')]"
    by code_simp
  from getPassword_payload_entries [of _ _ paginate ?s 1 ?q "projr (getPassword paginate ?s 1 ?q)"]
    g r e
  show ?thesis by simp
qed

section \<open>Two requests that add the same entry\<close>

lemma addPassword_split:
  "addPassword s userId b =
     addPassword_after_check create_accepts (addPassword_check s userId b) s userId b"
  by (simp add: addPassword_def addPassword_after_check_def addPassword_check_def
      create_accepts_def split: sum.split option.split prod.split)

lemma addPassword_check_absent:
  assumes "\<forall>d\<in>set (docs s). \<not> (user d = userId \<and> websiteName d = req_websiteName b
             \<and> url d = req_websiteUrl b)"
  shows "addPassword_check s userId b = Inr None"
proof -
  let ?f = "[UserEq userId, WebsiteNameEq (req_websiteName b), UrlEq (req_websiteUrl b)]"
  have "find (matches ?f) (docs s) = None"
    using assms by (simp add: find_None_iff matches_add_filter)
  then show ?thesis
    by (simp add: addPassword_check_def findOne_def castable_add_filter)
qed

lemma addPassword_check_present:
  assumes "\<exists>d\<in>set (docs s). user d = userId \<and> websiteName d = req_websiteName b
             \<and> url d = req_websiteUrl b"
  shows "\<exists>e. addPassword_check s userId b = Inr (Some e)"
proof -
  let ?f = "[UserEq userId, WebsiteNameEq (req_websiteName b), UrlEq (req_websiteUrl b)]"
  from assms obtain d where "d \<in> set (docs s)" "matches ?f d"
    by (auto simp: matches_add_filter)
  then have "find (matches ?f) (docs s) \<noteq> None"
    by (auto simp: find_None_iff)
  then obtain e where "find (matches ?f) (docs s) = Some e" by blast
  then have "addPassword_check s userId b = Inr (Some e)"
    by (simp add: addPassword_check_def findOne_def castable_add_filter)
  then show ?thesis by blast
qed

lemma after_passed_check:
  "addPassword_after_check ins (Inr None) s userId b =
     (case ins userId (req_websiteName b) (req_websiteUrl b)
             (Username (req_username b) (req_usernameIv b))
             (Password (req_password b) (req_passwordIv b)) (req_passwordStrength b) s of
        Inl m \<Rightarrow> (Inl (ErrorHandler m 500), s)
      | Inr (details, s') \<Rightarrow>
          (Inr (Message 201 True ''Password information added successfully.''), s'))"
  by (simp add: addPassword_after_check_def)

lemma after_found: 
  "addPassword_after_check ins (Inr (Some e)) s userId b =
     (Inr (Message 400 False ''Password already exists in the vault.''), s)"
  by (simp add: addPassword_after_check_def)

lemma caller_cases: "set sch \<subseteq> {First, Second}"
proof
  fix c assume "c \<in> set sch"
  show "c \<in> {First, Second}" by (cases c) simp_all
qed

lemma schedules_complete:
  assumes "length sch = 4" and "count_list sch First = 2"
  shows "sch \<in> set one_after_the_other \<or> sch \<in> set both_checks_first"
proof -
  have "sch \<in> set (List.n_lists 4 [First, Second])"
    using assms(1) caller_cases [of sch] by (simp add: set_n_lists)
  with assms(2)
  have "sch \<in> set (filter (\<lambda>c. count_list c First = 2) (List.n_lists 4 [First, Second]))"
    by simp
  moreover have "filter (\<lambda>c. count_list c First = 2) (List.n_lists 4 [First, Second]) =
      [[Second, Second, First, First], [Second, First, Second, First],
       [First, Second, Second, First], [Second, First, First, Second],
       [First, Second, First, Second], [First, First, Second, Second]]"
    by code_simp
  ultimately show ?thesis
    by (auto simp: one_after_the_other_def both_checks_first_def)
qed

text \<open>
  C8, as the claim has it, fails: nothing makes the check and the insertion of
  \<open>addPassword\<close> one step. When both requests check before either inserts, both
  checks find nothing, both documents are created and both requests are answered 201.
\<close>

theorem addPassword_interleaved_counterexample:
  "run create_accepts 1 example_body example_body [First, Second, First, Second]
       (NotStarted, NotStarted, empty_store) =
     (Answered (Inr (Message 201 True ''Password information added successfully.'')),
      Answered (Inr (Message 201 True ''Password information added successfully.'')),
      \<lparr>docs =
         [\<lparr>doc_id = 0, user = 1, websiteName = ''GitHub'', url = ''https://github.com'',
            username = Username ''c1'' ''iv1'', password = Password ''c2'' ''iv2'',
            passwordStrength = Str ''Strong'', websiteNameIv = Undefined, urlIv = Undefined,
            usernameIv = Undefined, passwordIv = Undefined\<rparr>,
          \<lparr>doc_id = 1, user = 1, websiteName = ''GitHub'', url = ''https://github.com'',
            username = Username ''c1'' ''iv1'', password = Password ''c2'' ''iv2'',
            passwordStrength = Str ''Strong'', websiteNameIv = Undefined, urlIv = Undefined,
            usernameIv = Undefined, passwordIv = Undefined\<rparr>],
       nextId = 2\<rparr>)"
  by code_simp

text \<open>
  C8, as the code has it. Two requests add the same website name and url for one
  owner, on a store that has no such entry; each takes its two steps, the check and
  the insertion, which leaves the six schedules below.
  \<^item> When one request runs after the other, one document is stored, the earlier
    request is answered 201 and the later one with the 400 conflict.
  \<^item> When both check before either inserts, and the store takes every document (no
    uniqueness constraint is to be seen in the controller), two documents with the
    same owner, website name and url are stored and both requests are answered 201.
  \<^item> Whatever the insertion does, a request whose check found nothing is never
    answered with the 400 conflict: it is answered 201 when the insertion returns,
    and with the error 500 and the message of the store when the insertion throws.
\<close>

theorem addPassword_two_requests:
  assumes "req_websiteName b2 = req_websiteName b1" and "req_websiteUrl b2 = req_websiteUrl b1"
    and "\<forall>d\<in>set (docs s). \<not> (user d = userId \<and> websiteName d = req_websiteName b1
           \<and> url d = req_websiteUrl b1)"
  shows "(length sch = 4 \<and> count_list sch First = 2 \<longrightarrow>
            sch \<in> set one_after_the_other \<or> sch \<in> set both_checks_first)
   \<and> (\<exists>d. run create_accepts userId b1 b2 [First, First, Second, Second]
              (NotStarted, NotStarted, s) =
            (Answered (Inr (Message 201 True ''Password information added successfully.'')),
             Answered (Inr (Message 400 False ''Password already exists in the vault.'')),
             \<lparr>docs = docs s @ [d], nextId = Suc (nextId s)\<rparr>))
   \<and> (\<exists>d. run create_accepts userId b1 b2 [Second, Second, First, First]
              (NotStarted, NotStarted, s) =
            (Answered (Inr (Message 400 False ''Password already exists in the vault.'')),
             Answered (Inr (Message 201 True ''Password information added successfully.'')),
             \<lparr>docs = docs s @ [d], nextId = Suc (nextId s)\<rparr>))
   \<and> (sch \<in> set both_checks_first \<longrightarrow>
        (\<exists>d d'. run create_accepts userId b1 b2 sch (NotStarted, NotStarted, s) =
            (Answered (Inr (Message 201 True ''Password information added successfully.'')),
             Answered (Inr (Message 201 True ''Password information added successfully.'')),
             \<lparr>docs = docs s @ [d, d'], nextId = Suc (Suc (nextId s))\<rparr>)
          \<and> user d = userId \<and> websiteName d = req_websiteName b1 \<and> url d = req_websiteUrl b1
          \<and> user d' = userId \<and> websiteName d' = req_websiteName b1 \<and> url d' = req_websiteUrl b1))
   \<and> fst (addPassword_after_check ins (Inr None) t userId b1) \<noteq>
        Inr (Message 400 False ''Password already exists in the vault.'')
   \<and> ((\<exists>t'. addPassword_after_check ins (Inr None) t userId b1 =
          (Inr (Message 201 True ''Password information added successfully.''), t'))
        \<or> (\<exists>m. addPassword_after_check ins (Inr None) t userId b1 =
          (Inl (ErrorHandler m 500), t)))"
proof -
  define mk where "mk = (\<lambda>(b::add_body) n. \<lparr>doc_id = n, user = userId, websiteName = req_websiteName b,
     url = req_websiteUrl b, username = Username (req_username b) (req_usernameIv b),
     password = Password (req_password b) (req_passwordIv b),
     passwordStrength = req_passwordStrength b, websiteNameIv = Undefined,
     urlIv = Undefined, usernameIv = Undefined, passwordIv = Undefined\<rparr>)"
  have ins: "addPassword_after_check create_accepts (Inr None) x userId b =
      (Inr (Message 201 True ''Password information added successfully.''),
       \<lparr>docs = docs x @ [mk b (nextId x)], nextId = Suc (nextId x)\<rparr>)" for x b
    by (simp add: after_passed_check create_accepts_def create_def Let_def mk_def)
  have c1: "addPassword_check s userId b1 = Inr None"
    by (rule addPassword_check_absent [OF assms(3)])
  have c2: "addPassword_check s userId b2 = Inr None"
    by (rule addPassword_check_absent) (use assms in simp)
  have p1: "\<exists>e. addPassword_check \<lparr>docs = docs s @ [mk b2 (nextId s)], nextId = Suc (nextId s)\<rparr>
      userId b1 = Inr (Some e)"
    by (rule addPassword_check_present) (use assms(1,2) in \<open>simp add: mk_def\<close>)
  have p2: "\<exists>e. addPassword_check \<lparr>docs = docs s @ [mk b1 (nextId s)], nextId = Suc (nextId s)\<rparr>
      userId b2 = Inr (Some e)"
    by (rule addPassword_check_present) (use assms(1,2) in \<open>simp add: mk_def\<close>)
  have complete: "length sch = 4 \<and> count_list sch First = 2 \<longrightarrow>
      sch \<in> set one_after_the_other \<or> sch \<in> set both_checks_first"
    using schedules_complete by blast
  have seq1: "\<exists>d. run create_accepts userId b1 b2 [First, First, Second, Second]
              (NotStarted, NotStarted, s) =
            (Answered (Inr (Message 201 True ''Password information added successfully.'')),
             Answered (Inr (Message 400 False ''Password already exists in the vault.'')),
             \<lparr>docs = docs s @ [d], nextId = Suc (nextId s)\<rparr>)"
  proof -
    from p2 obtain e where "addPassword_check
        \<lparr>docs = docs s @ [mk b1 (nextId s)], nextId = Suc (nextId s)\<rparr> userId b2 = Inr (Some e)"
      by blast
    then show ?thesis by (simp add: advance_def c1 ins after_found)
  qed
  have seq2: "\<exists>d. run create_accepts userId b1 b2 [Second, Second, First, First]
              (NotStarted, NotStarted, s) =
            (Answered (Inr (Message 400 False ''Password already exists in the vault.'')),
             Answered (Inr (Message 201 True ''Password information added successfully.'')),
             \<lparr>docs = docs s @ [d], nextId = Suc (nextId s)\<rparr>)"
  proof -
    from p1 obtain e where "addPassword_check
        \<lparr>docs = docs s @ [mk b2 (nextId s)], nextId = Suc (nextId s)\<rparr> userId b1 = Inr (Some e)"
      by blast
    then show ?thesis by (simp add: advance_def c2 ins after_found)
  qed
  have t1: "user (mk b n) = userId \<and> websiteName (mk b n) = req_websiteName b
      \<and> url (mk b n) = req_websiteUrl b" for b n
    by (simp add: mk_def)
  have both: "sch \<in> set both_checks_first \<longrightarrow>
        (\<exists>d d'. run create_accepts userId b1 b2 sch (NotStarted, NotStarted, s) =
            (Answered (Inr (Message 201 True ''Password information added successfully.'')),
             Answered (Inr (Message 201 True ''Password information added successfully.'')),
             \<lparr>docs = docs s @ [d, d'], nextId = Suc (Suc (nextId s))\<rparr>)
          \<and> user d = userId \<and> websiteName d = req_websiteName b1 \<and> url d = req_websiteUrl b1
          \<and> user d' = userId \<and> websiteName d' = req_websiteName b1 \<and> url d' = req_websiteUrl b1)"
  proof
    assume "sch \<in> set both_checks_first"
    then consider "sch = [First, Second, First, Second]" | "sch = [First, Second, Second, First]"
      | "sch = [Second, First, First, Second]" | "sch = [Second, First, Second, First]"
      by (auto simp: both_checks_first_def)
    then show "\<exists>d d'. run create_accepts userId b1 b2 sch (NotStarted, NotStarted, s) =
            (Answered (Inr (Message 201 True ''Password information added successfully.'')),
             Answered (Inr (Message 201 True ''Password information added successfully.'')),
             \<lparr>docs = docs s @ [d, d'], nextId = Suc (Suc (nextId s))\<rparr>)
          \<and> user d = userId \<and> websiteName d = req_websiteName b1 \<and> url d = req_websiteUrl b1
          \<and> user d' = userId \<and> websiteName d' = req_websiteName b1 \<and> url d' = req_websiteUrl b1"
    proof cases
      case 1
      have "run create_accepts userId b1 b2 sch (NotStarted, NotStarted, s) =
            (Answered (Inr (Message 201 True ''Password information added successfully.'')),
             Answered (Inr (Message 201 True ''Password information added successfully.'')),
             \<lparr>docs = docs s @ [mk b1 (nextId s), mk b2 (Suc (nextId s))],
                nextId = Suc (Suc (nextId s))\<rparr>)"
        by (simp add: 1 advance_def c1 c2 ins)
      with t1 [of b1 "nextId s"] t1 [of b2 "Suc (nextId s)"] assms(1,2) show ?thesis
        by (intro exI [of _ "mk b1 (nextId s)"] exI [of _ "mk b2 (Suc (nextId s))"]) simp
    next
      case 2
      have "run create_accepts userId b1 b2 sch (NotStarted, NotStarted, s) =
            (Answered (Inr (Message 201 True ''Password information added successfully.'')),
             Answered (Inr (Message 201 True ''Password information added successfully.'')),
             \<lparr>docs = docs s @ [mk b2 (nextId s), mk b1 (Suc (nextId s))],
                nextId = Suc (Suc (nextId s))\<rparr>)"
        by (simp add: 2 advance_def c1 c2 ins)
      with t1 [of b2 "nextId s"] t1 [of b1 "Suc (nextId s)"] assms(1,2) show ?thesis
        by (intro exI [of _ "mk b2 (nextId s)"] exI [of _ "mk b1 (Suc (nextId s))"]) simp
    next
      case 3
      have "run create_accepts userId b1 b2 sch (NotStarted, NotStarted, s) =
            (Answered (Inr (Message 201 True ''Password information added successfully.'')),
             Answered (Inr (Message 201 True ''Password information added successfully.'')),
             \<lparr>docs = docs s @ [mk b1 (nextId s), mk b2 (Suc (nextId s))],
                nextId = Suc (Suc (nextId s))\<rparr>)"
        by (simp add: 3 advance_def c1 c2 ins)
      with t1 [of b1 "nextId s"] t1 [of b2 "Suc (nextId s)"] assms(1,2) show ?thesis
        by (intro exI [of _ "mk b1 (nextId s)"] exI [of _ "mk b2 (Suc (nextId s))"]) simp
    next
      case 4
      have "run create_accepts userId b1 b2 sch (NotStarted, NotStarted, s) =
            (Answered (Inr (Message 201 True ''Password information added successfully.'')),
             Answered (Inr (Message 201 True ''Password information added successfully.'')),
             \<lparr>docs = docs s @ [mk b2 (nextId s), mk b1 (Suc (nextId s))],
                nextId = Suc (Suc (nextId s))\<rparr>)"
        by (simp add: 4 advance_def c1 c2 ins)
      with t1 [of b2 "nextId s"] t1 [of b1 "Suc (nextId s)"] assms(1,2) show ?thesis
        by (intro exI [of _ "mk b2 (nextId s)"] exI [of _ "mk b1 (Suc (nextId s))"]) simp
    qed
  qed
  have never: "fst (addPassword_after_check ins (Inr None) t userId b1) \<noteq>
        Inr (Message 400 False ''Password already exists in the vault.'')"
    by (simp add: after_passed_check split: sum.split prod.split)
  have either: "(\<exists>t'. addPassword_after_check ins (Inr None) t userId b1 =
          (Inr (Message 201 True ''Password information added successfully.''), t'))
        \<or> (\<exists>m. addPassword_after_check ins (Inr None) t userId b1 =
          (Inl (ErrorHandler m 500), t))"
    by (simp add: after_passed_check split: sum.split prod.split)
  from complete seq1 seq2 both never either show ?thesis by blast
qed

theorem addPassword_two_requests_witness:
  "run create_accepts 1 example_body example_body [First, First, Second, Second]
       (NotStarted, NotStarted, empty_store) =
     (Answered (Inr (Message 201 True ''Password information added successfully.'')),
      Answered (Inr (Message 400 False ''Password already exists in the vault.'')),
      snd (addPassword empty_store 1 example_body))
   \<and> length (docs (snd (snd (run create_accepts 1 example_body example_body
        [First, First, Second, Second] (NotStarted, NotStarted, empty_store))))) = 1
   \<and> length (docs (snd (snd (run create_accepts 1 example_body example_body
        [Second, First, First, Second] (NotStarted, NotStarted, empty_store))))) = 2"
proof -
  have e: "run create_accepts 1 example_body example_body [First, First, Second, Second]
       (NotStarted, NotStarted, empty_store) =
     (Answered (Inr (Message 201 True ''Password information added successfully.'')),
      Answered (Inr (Message 400 False ''Password already exists in the vault.'')),
      snd (addPassword empty_store 1 example_body))"
    and a: "\<forall>d\<in>set (docs empty_store). \<not> (user d = 1 \<and> websiteName d = req_websiteName example_body
           \<and> url d = req_websiteUrl example_body)"
    and m: "[Second, First, First, Second] \<in> set both_checks_first"
    and l: "length (docs (snd (addPassword empty_store 1 example_body))) = 1"
    by code_simp+
  from addPassword_two_requests [OF refl refl a, of "[Second, First, First, Second]"] m
  obtain d d' where "run create_accepts 1 example_body example_body [Second, First, First, Second]
      (NotStarted, NotStarted, empty_store) =
    (Answered (Inr (Message 201 True ''Password information added successfully.'')),
     Answered (Inr (Message 201 True ''Password information added successfully.'')),
     \<lparr>docs = docs empty_store @ [d, d'], nextId = Suc (Suc (nextId empty_store))\<rparr>)"
    by blast
  then have "length (docs (snd (snd (run create_accepts 1 example_body example_body
        [Second, First, First, Second] (NotStarted, NotStarted, empty_store))))) = 2"
    by (simp only: snd_conv) (simp add: empty_store_def)
  moreover from e l
  have "length (docs (snd (snd (run create_accepts 1 example_body example_body
        [First, First, Second, Second] (NotStarted, NotStarted, empty_store))))) = 1"
    by (simp only: snd_conv)
  ultimately show ?thesis using e by blast
qed

end
